theory Spec2Isabelle
  imports Complex_Main
begin

section \<open>The solar system example: data model\<close>

text \<open>
  Source: \<^verbatim>\<open>examples/models/models_solar_system.c\<close>.

  A C \<^verbatim>\<open>float\<close> is modelled by the rational number it holds. Where the source makes one
  arithmetic operation and stores the result in a \<^verbatim>\<open>float\<close> (the two products of
  \<^verbatim>\<open>CreateBody\<close>, and the \<^verbatim>\<open>double\<close> constants that \<^verbatim>\<open>main\<close> passes to it), the model rounds
  as binary32 does: to the nearest value, ties to the even one. The chained expression
  \<^verbatim>\<open>rotationSpeed*360/child->orbitPeriod\<close>, the sums of angles and the steps of the speed
  are exact in the model; what is stated about them below does not depend on how they
  round. A division by zero is a fault of the model instead of an infinity or a NaN. C
  \<^verbatim>\<open>int\<close> values are modelled as unbounded integers: the only increments of the program
  (\<^verbatim>\<open>childrenCount++\<close> below \<^verbatim>\<open>MAX_BODY_CHILDREN\<close>, \<^verbatim>\<open>i++\<close> below \<^verbatim>\<open>childrenCount\<close>)
  cannot overflow. A \<^verbatim>\<open>Body *\<close> is an address into a store of bodies; the null pointer
  is \<open>None\<close>.
\<close>

type_synonym cfloat = rat
type_synonym Vector2 = "cfloat \<times> cfloat"
type_synonym Vector3 = "cfloat \<times> cfloat \<times> cfloat"
type_synonym addr = nat

definition MAX_BODY_CHILDREN :: int where
  "MAX_BODY_CHILDREN = 10"

text \<open>Rounding to a binary floating-point format with \<open>p\<close> bits of precision whose least
  unit in the last place is 2 to the \<open>emin\<close>: the unit for \<open>x\<close> is 2 to the least
  \<open>e \<ge> emin\<close> with \<open>\<bar>x\<bar> < 2 powi (e + p)\<close>, searched upwards over the \<open>steps\<close> exponents
  of the format, and \<open>x\<close> is rounded to the nearest multiple of it, ties to the even
  multiple. A value beyond the largest of the format, which is an infinity in C, is
  rounded on the last grid and stays finite: it is outside what the model follows.\<close>

definition round_even :: "rat \<Rightarrow> int" where
  "round_even q =
     (let f = \<lfloor>q\<rfloor>; r = q - of_int f
      in if r < 1/2 then f else if 1/2 < r then f + 1 else if even f then f else f + 1)"

fun ulp_exponent :: "nat \<Rightarrow> int \<Rightarrow> int \<Rightarrow> rat \<Rightarrow> int" where
  "ulp_exponent 0 e p x = e"
| "ulp_exponent (Suc n) e p x =
     (if \<bar>x\<bar> < 2 powi (e + p) then e else ulp_exponent n (e + 1) p x)"

definition round_float :: "nat \<Rightarrow> int \<Rightarrow> int \<Rightarrow> rat \<Rightarrow> rat" where
  "round_float steps emin p x =
     (let e = ulp_exponent steps emin p x
      in of_int (round_even (x / 2 powi e)) * 2 powi e)"

text \<open>binary32 (\<^verbatim>\<open>float\<close>): 24 bits, units from 2 powi -149 to 2 powi 104; binary64
  (\<^verbatim>\<open>double\<close>): 53 bits, units from 2 powi -1074 to 2 powi 971.\<close>

definition fl32 :: "rat \<Rightarrow> cfloat" where
  "fl32 = round_float 253 (-149) 24"

definition fl64 :: "rat \<Rightarrow> rat" where
  "fl64 = round_float 2045 (-1074) 53"

text \<open>A decimal constant of the source where a \<^verbatim>\<open>float\<close> is expected: it is a \<^verbatim>\<open>double\<close>,
  converted to \<^verbatim>\<open>float\<close>.\<close>

definition literal :: "rat \<Rightarrow> cfloat" where
  "literal x = fl32 (fl64 x)"

text \<open>Textures and models are opaque handles of the graphics library; the model keeps
  the path they were loaded from.\<close>

record Texture2D =
  texturePath :: string
  mipmaps :: bool

record Model =
  meshPath :: string
  diffuseTexture :: Texture2D

datatype CameraType = CAMERA_PERSPECTIVE | CAMERA_ORTHOGRAPHIC

record Camera =
  position :: Vector3
  target :: Vector3
  up :: Vector3
  fovy :: cfloat
  cameraType :: CameraType

record Body =
  label :: string
  radius :: cfloat
  orbitRadius :: cfloat
  orbitPeriod :: cfloat
  rotationPeriod :: cfloat
  texture :: Texture2D
  model :: Model
  orbitPosition :: cfloat
  rotationPosition :: cfloat
  labelPosition :: Vector2
  children :: "addr option list"
  childrenCount :: int

text \<open>The calls into the graphics library, in the order the program makes them. The
  entries \<open>Enter_DrawBody\<close> and \<open>Enter_DrawBodyLabel\<close> are not library calls: they record
  each invocation of the two traversal functions and the body it was invoked on.\<close>

datatype TraceLogType = LOG_ERROR

datatype call =
    Log TraceLogType string
  | Enter_DrawBody addr
  | Enter_DrawBodyLabel addr
  | DrawModel Model Vector3 cfloat
  | rlPushMatrix
  | rlPopMatrix
  | rlRotatef cfloat cfloat cfloat cfloat
  | rlTranslatef cfloat cfloat cfloat
  | DrawCircle3D Vector3 cfloat Vector3 cfloat
  | DrawText string int int int
  | BeginMode3D Camera
  | EndMode3D
  | DrawSpeedText cfloat
  | DrawHelpText bool
  | DrawFPS

text \<open>The program state: the store of bodies, the global \<^verbatim>\<open>rotationSpeed\<close>, the locals of
  \<^verbatim>\<open>main\<close> that live across frames, and the calls made so far.\<close>

record state =
  heap :: "addr \<rightharpoonup> Body"
  rotationSpeed :: cfloat
  camera :: Camera
  showHelpMenu :: bool
  showBodyLabels :: bool
  calls :: "call list"

datatype fault = InvalidPointer | OutOfBounds | DivisionByZero

definition emit :: "call \<Rightarrow> state \<Rightarrow> state" where
  "emit c s = s\<lparr>calls := calls s @ [c]\<rparr>"

text \<open>Modelled from the spec: \<^verbatim>\<open>TraceLog\<close> belongs to the library and is not among the
  sources. Following the spec ("the operation must be reported as a non-fatal error"),
  it records the message and returns to its caller.\<close>

definition TraceLog :: "TraceLogType \<Rightarrow> string \<Rightarrow> state \<Rightarrow> state" where
  "TraceLog level msg s = emit (Log level msg) s"

section \<open>Creating and attaching bodies\<close>

definition zeroTexture :: Texture2D where
  "zeroTexture = \<lparr>texturePath = [], mipmaps = False\<rparr>"

definition LoadTexture :: "string \<Rightarrow> Texture2D" where
  "LoadTexture path = \<lparr>texturePath = path, mipmaps = False\<rparr>"

definition GenTextureMipmaps :: "Texture2D \<Rightarrow> Texture2D" where
  "GenTextureMipmaps t = t\<lparr>mipmaps := True\<rparr>"

definition LoadModel :: "string \<Rightarrow> Model" where
  "LoadModel path = \<lparr>meshPath = path, diffuseTexture = zeroTexture\<rparr>"

text \<open>\<^verbatim>\<open>Body body = { 0 }\<close>: every field zero, every child pointer null.\<close>

definition zeroBody :: Body where
  "zeroBody = \<lparr>label = [], radius = 0, orbitRadius = 0, orbitPeriod = 0,
     rotationPeriod = 0, texture = zeroTexture,
     model = \<lparr>meshPath = [], diffuseTexture = zeroTexture\<rparr>,
     orbitPosition = 0, rotationPosition = 0, labelPosition = (0, 0),
     children = replicate (nat MAX_BODY_CHILDREN) None, childrenCount = 0\<rparr>"

definition CreateBody :: "cfloat \<Rightarrow> cfloat \<Rightarrow> cfloat \<Rightarrow> string \<Rightarrow> string \<Rightarrow> Body" where
  "CreateBody radius' orbitRadius' orbitPeriod' label' texture_name =
     (let body = zeroBody;
          tex = LoadTexture (''resources/solar_system/'' @ texture_name @ ''.png'');
          tex = GenTextureMipmaps tex;
          body = body\<lparr>label := label'\<rparr>;
          body = body\<lparr>radius := fl32 (radius' * 10)\<rparr>;
          body = body\<lparr>orbitRadius := fl32 (orbitRadius' * 10)\<rparr>;
          body = body\<lparr>orbitPeriod := orbitPeriod'\<rparr>;
          body = body\<lparr>model := LoadModel ''resources/solar_system/sphere.obj''\<rparr>;
          body = body\<lparr>model := (model body)\<lparr>diffuseTexture := tex\<rparr>\<rparr>;
          body = body\<lparr>childrenCount := 0\<rparr>;
          body = body\<lparr>orbitPosition := 0\<rparr>
      in body)"

text \<open>\<^verbatim>\<open>AddBodyChildren\<close>. A store through an index outside the array is a fault; it
  cannot happen from a count that \<^verbatim>\<open>CreateBody\<close> and \<^verbatim>\<open>AddBodyChildren\<close> produced.\<close>

definition AddBodyChildren :: "addr \<Rightarrow> addr \<Rightarrow> state \<Rightarrow> fault + state" where
  "AddBodyChildren parent child s =
     (case heap s parent of
        None \<Rightarrow> Inl InvalidPointer
      | Some p \<Rightarrow>
          if childrenCount p \<ge> MAX_BODY_CHILDREN
          then Inr (TraceLog LOG_ERROR ''ERROR: Body has too many children!'' s)
          else if childrenCount p < 0 \<or> int (length (children p)) \<le> childrenCount p
          then Inl OutOfBounds
          else Inr (s\<lparr>heap := (heap s)(parent \<mapsto>
                 p\<lparr>children := (children p)[nat (childrenCount p) := Some child],
                   childrenCount := childrenCount p + 1\<rparr>)\<rparr>))"

section \<open>The two traversals\<close>

text \<open>\<^verbatim>\<open>body->children[i]\<close> for an \<^verbatim>\<open>int i\<close>.\<close>

definition child_at :: "Body \<Rightarrow> int \<Rightarrow> fault + addr" where
  "child_at body i =
     (if i < 0 \<or> int (length (children body)) \<le> i then Inl OutOfBounds
      else case children body ! nat i of None \<Rightarrow> Inl InvalidPointer | Some c \<Rightarrow> Inr c)"

text \<open>
  \<^verbatim>\<open>DrawBody\<close> and its \<^verbatim>\<open>for\<close> loop. The recursion follows pointers of the store and need
  not end (a body may be its own descendant), so both functions take fuel: every call
  and every loop iteration uses one unit, and \<open>None\<close> is "out of fuel". The projection
  \<^verbatim>\<open>GetWorldToScreen\<close> belongs to the graphics library and is a parameter.
\<close>

fun DrawBody :: "nat \<Rightarrow> (Vector3 \<Rightarrow> Camera \<Rightarrow> Vector2) \<Rightarrow> addr \<Rightarrow> Camera \<Rightarrow> state
      \<Rightarrow> (fault + state) option"
and DrawBody_loop :: "nat \<Rightarrow> (Vector3 \<Rightarrow> Camera \<Rightarrow> Vector2) \<Rightarrow> addr \<Rightarrow> Camera \<Rightarrow> int
      \<Rightarrow> state \<Rightarrow> (fault + state) option" where
  "DrawBody 0 GetWorldToScreen b cam s = None"
| "DrawBody (Suc n) GetWorldToScreen b cam s =
     (case heap s b of
        None \<Rightarrow> Some (Inl InvalidPointer)
      | Some body \<Rightarrow>
          let s = emit (Enter_DrawBody b) s;
              s = emit (DrawModel (model body) (0, 0, 0) (radius body)) s;
              body = body\<lparr>labelPosition :=
                       GetWorldToScreen (orbitRadius body, radius body, 0) cam\<rparr>;
              s = s\<lparr>heap := (heap s)(b \<mapsto> body)\<rparr>
          in DrawBody_loop n GetWorldToScreen b cam 0 s)"
| "DrawBody_loop 0 GetWorldToScreen b cam i s = None"
| "DrawBody_loop (Suc n) GetWorldToScreen b cam i s =
     (case heap s b of
        None \<Rightarrow> Some (Inl InvalidPointer)
      | Some body \<Rightarrow>
          if i < childrenCount body then
            (case child_at body i of
               Inl e \<Rightarrow> Some (Inl e)
             | Inr c \<Rightarrow>
                (case heap s c of
                   None \<Rightarrow> Some (Inl InvalidPointer)
                 | Some child \<Rightarrow>
                     if orbitPeriod child = 0 then Some (Inl DivisionByZero)
                     else
                       let child = child\<lparr>orbitPosition := orbitPosition child
                                     + rotationSpeed s * 360 / orbitPeriod child\<rparr>;
                           s = s\<lparr>heap := (heap s)(c \<mapsto> child)\<rparr>;
                           s = emit rlPushMatrix s;
                           s = emit (rlRotatef (orbitPosition child) 0 1 0) s;
                           s = emit (rlTranslatef (orbitRadius child) 0 0) s;
                           s = emit (rlRotatef (- orbitPosition child) 0 1 0) s
                       in (case DrawBody n GetWorldToScreen c cam s of
                             None \<Rightarrow> None
                           | Some (Inl e) \<Rightarrow> Some (Inl e)
                           | Some (Inr s) \<Rightarrow>
                               let s = emit rlPopMatrix s
                               in (case heap s c of
                                     None \<Rightarrow> Some (Inl InvalidPointer)
                                   | Some child \<Rightarrow>
                                       let s = emit (DrawCircle3D (0, 0, 0) (orbitRadius child)
                                                       (1, 0, 0) 90) s
                                       in DrawBody_loop n GetWorldToScreen b cam (i + 1) s))))
          else Some (Inr s))"

text \<open>C conversions used by \<^verbatim>\<open>DrawBodyLabel\<close>: \<^verbatim>\<open>int / int\<close> and \<^verbatim>\<open>float\<close> to \<^verbatim>\<open>int\<close> both
  truncate towards zero.\<close>

definition c_div :: "int \<Rightarrow> int \<Rightarrow> int" where
  "c_div a b = sgn a * sgn b * (\<bar>a\<bar> div \<bar>b\<bar>)"

definition c_int :: "cfloat \<Rightarrow> int" where
  "c_int x = (if 0 \<le> x then \<lfloor>x\<rfloor> else \<lceil>x\<rceil>)"

text \<open>\<^verbatim>\<open>DrawBodyLabel\<close> and its loop, with fuel as above; \<^verbatim>\<open>MeasureText\<close> is a parameter.\<close>

fun DrawBodyLabel :: "nat \<Rightarrow> (string \<Rightarrow> int \<Rightarrow> int) \<Rightarrow> addr \<Rightarrow> state \<Rightarrow> (fault + state) option"
and DrawBodyLabel_loop :: "nat \<Rightarrow> (string \<Rightarrow> int \<Rightarrow> int) \<Rightarrow> addr \<Rightarrow> int \<Rightarrow> state
      \<Rightarrow> (fault + state) option" where
  "DrawBodyLabel 0 MeasureText b s = None"
| "DrawBodyLabel (Suc n) MeasureText b s =
     (case heap s b of
        None \<Rightarrow> Some (Inl InvalidPointer)
      | Some body \<Rightarrow>
          let s = emit (Enter_DrawBodyLabel b) s;
              s = emit (DrawText (label body)
                    (c_int (fst (labelPosition body)
                       - of_int (c_div (MeasureText (label body) 20) 2)))
                    (c_int (snd (labelPosition body))) 20) s
          in DrawBodyLabel_loop n MeasureText b 0 s)"
| "DrawBodyLabel_loop 0 MeasureText b i s = None"
| "DrawBodyLabel_loop (Suc n) MeasureText b i s =
     (case heap s b of
        None \<Rightarrow> Some (Inl InvalidPointer)
      | Some body \<Rightarrow>
          if i < childrenCount body then
            (case child_at body i of
               Inl e \<Rightarrow> Some (Inl e)
             | Inr c \<Rightarrow>
                (case DrawBodyLabel n MeasureText c s of
                   None \<Rightarrow> None
                 | Some (Inl e) \<Rightarrow> Some (Inl e)
                 | Some (Inr s) \<Rightarrow> DrawBodyLabel_loop n MeasureText b (i + 1) s))
          else Some (Inr s))"

section \<open>The main program\<close>

text \<open>The addresses of the bodies declared in \<^verbatim>\<open>main\<close>, in declaration order.\<close>

definition sun :: addr where "sun = 0"
definition moon :: addr where "moon = 1"
definition mercury :: addr where "mercury = 2"
definition venus :: addr where "venus = 3"
definition earth :: addr where "earth = 4"
definition mars :: addr where "mars = 5"
definition jupiter :: addr where "jupiter = 6"
definition saturn :: addr where "saturn = 7"
definition uranus :: addr where "uranus = 8"
definition neptune :: addr where "neptune = 9"
definition pluto :: addr where "pluto = 10"

definition main_camera :: Camera where
  "main_camera = \<lparr>position = (20, 12, 20), target = (0, 0, 0), up = (0, 1, 0), fovy = 45,
     cameraType = CAMERA_PERSPECTIVE\<rparr>"

definition main_bodies :: "addr \<rightharpoonup> Body" where
  "main_bodies =
     [sun \<mapsto> CreateBody (literal (2/10)) (literal 0) 0 ''sun'' ''2k_sun'',
      moon \<mapsto> CreateBody (literal (2/100)) (literal (200/1000)) 24 ''moon'' ''2k_moon'',
      mercury \<mapsto> CreateBody (literal (5/100)) (literal (396/1000)) 90 ''mercury'' ''2k_mercury'',
      venus \<mapsto> CreateBody (literal (5/100)) (literal (723/1000)) 210 ''venus''
                ''2k_venus_atmosphere'',
      earth \<mapsto> CreateBody (literal (5/100)) (literal 1) 365 ''earth'' ''2k_earth_daymap'',
      mars \<mapsto> CreateBody (literal (5/100)) (literal (1523/1000)) 690 ''mars'' ''2k_mars'',
      jupiter \<mapsto> CreateBody (literal (5/100)) (literal (5200/1000)) 4260 ''jupiter''
                  ''2k_jupiter'',
      saturn \<mapsto> CreateBody (literal (5/100)) (literal (9532/1000)) 10620 ''saturn''
                 ''2k_saturn'',
      uranus \<mapsto> CreateBody (literal (5/100)) (literal (19180/1000)) 30270 ''uranus''
                 ''2k_uranus'',
      neptune \<mapsto> CreateBody (literal (5/100)) (literal (30056/1000)) 59370 ''neptune''
                  ''2k_neptune'',
      pluto \<mapsto> CreateBody (literal (5/100)) (literal (39463/1000)) 89310 ''pluto''
                ''2k_eris_fictional'']"

definition main_start :: state where
  "main_start = \<lparr>heap = main_bodies, rotationSpeed = 2/10, camera = main_camera,
     showHelpMenu = False, showBodyLabels = True, calls = []\<rparr>"

definition attach :: "addr \<Rightarrow> addr \<Rightarrow> fault + state \<Rightarrow> fault + state" where
  "attach parent child r = (case r of Inl e \<Rightarrow> Inl e | Inr s \<Rightarrow> AddBodyChildren parent child s)"

text \<open>The state of \<^verbatim>\<open>main\<close> when it enters its loop.\<close>

definition main_setup :: "fault + state" where
  "main_setup =
     attach earth moon (attach sun mars (attach sun earth (attach sun venus
       (attach sun mercury (Inr main_start)))))"

text \<open>What one pass of the main loop reads from outside: the four key presses and the
  camera that \<^verbatim>\<open>UpdateCamera\<close> leaves.\<close>

record input =
  KEY_H :: bool
  KEY_L :: bool
  KEY_LEFT :: bool
  KEY_RIGHT :: bool
  UpdateCamera :: Camera

text \<open>The update part of one pass of the loop.\<close>

definition update :: "input \<Rightarrow> state \<Rightarrow> state" where
  "update inp s =
     (let s = s\<lparr>camera := UpdateCamera inp\<rparr>;
          s = (if KEY_H inp then s\<lparr>showHelpMenu := \<not> showHelpMenu s\<rparr> else s);
          s = (if KEY_L inp then s\<lparr>showBodyLabels := \<not> showBodyLabels s\<rparr> else s);
          s = (if KEY_LEFT inp then s\<lparr>rotationSpeed := rotationSpeed s - 1/10\<rparr> else s);
          s = (if KEY_RIGHT inp then s\<lparr>rotationSpeed := rotationSpeed s + 1/10\<rparr> else s)
      in s)"

text \<open>One pass of the main loop, and the loop over the passes made before the window
  closes. Each traversal of a pass gets the fuel \<open>n\<close>. Of the drawing calls of a pass the
  model records those around and inside the two traversals and the three texts drawn after
  them (the speed, the help text chosen by \<^verbatim>\<open>showHelpMenu\<close>, the frame rate);
  \<^verbatim>\<open>BeginDrawing\<close>, \<^verbatim>\<open>ClearBackground\<close> and \<^verbatim>\<open>EndDrawing\<close> touch nothing the program reads.\<close>

definition frame :: "nat \<Rightarrow> (Vector3 \<Rightarrow> Camera \<Rightarrow> Vector2) \<Rightarrow> (string \<Rightarrow> int \<Rightarrow> int) \<Rightarrow> input
      \<Rightarrow> state \<Rightarrow> (fault + state) option" where
  "frame n GetWorldToScreen MeasureText inp s =
     (let s = update inp s;
          s = emit (BeginMode3D (camera s)) s
      in case DrawBody n GetWorldToScreen sun (camera s) s of
           None \<Rightarrow> None
         | Some (Inl e) \<Rightarrow> Some (Inl e)
         | Some (Inr s) \<Rightarrow>
             let s = emit EndMode3D s
             in (case (if showBodyLabels s then DrawBodyLabel n MeasureText sun s
                       else Some (Inr s)) of
                   None \<Rightarrow> None
                 | Some (Inl e) \<Rightarrow> Some (Inl e)
                 | Some (Inr s) \<Rightarrow>
                     let s = emit (DrawSpeedText (rotationSpeed s)) s;
                         s = emit (DrawHelpText (showHelpMenu s)) s;
                         s = emit DrawFPS s
                     in Some (Inr s)))"

fun main_loop :: "nat \<Rightarrow> (Vector3 \<Rightarrow> Camera \<Rightarrow> Vector2) \<Rightarrow> (string \<Rightarrow> int \<Rightarrow> int) \<Rightarrow> input list
      \<Rightarrow> state \<Rightarrow> (fault + state) option" where
  "main_loop n GetWorldToScreen MeasureText [] s = Some (Inr s)"
| "main_loop n GetWorldToScreen MeasureText (inp # inps) s =
     (case frame n GetWorldToScreen MeasureText inp s of
        None \<Rightarrow> None
      | Some (Inl e) \<Rightarrow> Some (Inl e)
      | Some (Inr s) \<Rightarrow> main_loop n GetWorldToScreen MeasureText inps s)"

section \<open>Trees in the store\<close>

text \<open>A finite tree of addresses, and what it means for the store to hold it below an
  address: each node's first \<^verbatim>\<open>childrenCount\<close> child pointers are the roots of its
  subtrees, in order.\<close>

datatype btree = Node addr "btree list"

fun root_of :: "btree \<Rightarrow> addr" where
  "root_of (Node a ts) = a"

fun preorder :: "btree \<Rightarrow> addr list" where
  "preorder (Node a ts) = a # concat (map preorder ts)"

definition descendants :: "btree \<Rightarrow> addr list" where
  "descendants t = tl (preorder t)"

fun shape :: "(addr \<rightharpoonup> Body) \<Rightarrow> btree \<Rightarrow> bool" where
  "shape h (Node a ts) =
     (case h a of
        None \<Rightarrow> False
      | Some body \<Rightarrow>
          childrenCount body = int (length ts) \<and> length ts \<le> length (children body)
          \<and> take (length ts) (children body) = map (\<lambda>t. Some (root_of t)) ts
          \<and> (\<forall>t \<in> set ts. shape h t))"

text \<open>The children \<open>ts\<close> of \<open>b\<close> from index \<open>i\<close> on: the part of the tree a loop at
  index \<open>i\<close> still has to walk.\<close>

definition kids :: "(addr \<rightharpoonup> Body) \<Rightarrow> addr \<Rightarrow> nat \<Rightarrow> btree list \<Rightarrow> bool" where
  "kids h b i ts =
     (case h b of
        None \<Rightarrow> False
      | Some body \<Rightarrow>
          childrenCount body = int (i + length ts) \<and> i + length ts \<le> length (children body)
          \<and> take (length ts) (drop i (children body)) = map (\<lambda>t. Some (root_of t)) ts
          \<and> (\<forall>t \<in> set ts. shape h t))"

text \<open>Every body below the root has a nonzero orbit period.\<close>

definition periods_ok :: "(addr \<rightharpoonup> Body) \<Rightarrow> addr list \<Rightarrow> bool" where
  "periods_ok h as = (\<forall>a \<in> set as. case h a of None \<Rightarrow> True | Some body \<Rightarrow> orbitPeriod body \<noteq> 0)"

text \<open>Every body attached as a child has a nonzero orbit period.\<close>

definition child_periods_ok :: "(addr \<rightharpoonup> Body) \<Rightarrow> bool" where
  "child_periods_ok h = (\<forall>b body i c child.
     h b = Some body \<and> i < childrenCount body \<and> child_at body i = Inr c \<and> h c = Some child
     \<longrightarrow> orbitPeriod child \<noteq> 0)"

text \<open>Fuel that is enough to walk a tree.\<close>

fun need :: "btree \<Rightarrow> nat" and needs :: "btree list \<Rightarrow> nat" where
  "need (Node a ts) = Suc (needs ts)"
| "needs [] = 1"
| "needs (t # ts) = Suc (max (need t) (needs ts))"

text \<open>The bodies a call list entered, in order.\<close>

fun entered :: "call list \<Rightarrow> addr list" where
  "entered [] = []"
| "entered (Enter_DrawBody a # cs) = a # entered cs"
| "entered (c # cs) = entered cs"

fun entered_label :: "call list \<Rightarrow> addr list" where
  "entered_label [] = []"
| "entered_label (Enter_DrawBodyLabel a # cs) = a # entered_label cs"
| "entered_label (c # cs) = entered_label cs"

text \<open>The store after a draw traversal that entered the bodies \<open>vis\<close> and advanced the
  bodies \<open>adv\<close> (with multiplicity) at rotation speed \<open>S\<close>.\<close>

definition drawn :: "(Vector3 \<Rightarrow> Camera \<Rightarrow> Vector2) \<Rightarrow> Camera \<Rightarrow> cfloat \<Rightarrow> addr list \<Rightarrow> addr list
      \<Rightarrow> (addr \<rightharpoonup> Body) \<Rightarrow> (addr \<rightharpoonup> Body)" where
  "drawn G cam S vis adv h = (\<lambda>a.
     case h a of
       None \<Rightarrow> None
     | Some body \<Rightarrow> Some (body\<lparr>
         orbitPosition := orbitPosition body
           + of_nat (count_list adv a) * (S * 360 / orbitPeriod body),
         labelPosition := (if a \<in> set vis then G (orbitRadius body, radius body, 0) cam
                           else labelPosition body)\<rparr>))"

section \<open>Sequences of operations\<close>

text \<open>A sequence of attach operations, each given as (parent, child).\<close>

fun attach_all :: "(addr \<times> addr) list \<Rightarrow> state \<Rightarrow> fault + state" where
  "attach_all [] s = Inr s"
| "attach_all ((parent, child) # ops) s =
     (case AddBodyChildren parent child s of Inl e \<Rightarrow> Inl e | Inr s' \<Rightarrow> attach_all ops s')"

text \<open>What \<^verbatim>\<open>CreateBody\<close> establishes and \<^verbatim>\<open>AddBodyChildren\<close> keeps for every body of the
  store: the child array has its \<^verbatim>\<open>MAX_BODY_CHILDREN\<close> slots and the count lies within it.\<close>

definition counts_ok :: "(addr \<rightharpoonup> Body) \<Rightarrow> bool" where
  "counts_ok h = (\<forall>a body. h a = Some body \<longrightarrow>
     0 \<le> childrenCount body \<and> childrenCount body \<le> MAX_BODY_CHILDREN
     \<and> int (length (children body)) = MAX_BODY_CHILDREN)"

text \<open>The rotation speed after the key handling of one pass, and the store after the
  passes for the inputs \<open>inps\<close> over a tree \<open>t\<close>.\<close>

definition key_speed :: "input \<Rightarrow> cfloat \<Rightarrow> cfloat" where
  "key_speed inp S =
     (let S = (if KEY_LEFT inp then S - 1/10 else S)
      in if KEY_RIGHT inp then S + 1/10 else S)"

fun frames_heap :: "(Vector3 \<Rightarrow> Camera \<Rightarrow> Vector2) \<Rightarrow> btree \<Rightarrow> input list \<Rightarrow> cfloat
      \<Rightarrow> (addr \<rightharpoonup> Body) \<Rightarrow> (addr \<rightharpoonup> Body)" where
  "frames_heap G t [] S h = h"
| "frames_heap G t (inp # inps) S h =
     frames_heap G t inps (key_speed inp S)
       (drawn G (UpdateCamera inp) (key_speed inp S) (preorder t) (descendants t) h)"

text \<open>The tree that \<^verbatim>\<open>main\<close> builds.\<close>

definition main_tree :: btree where
  "main_tree = Node sun [Node mercury [], Node venus [], Node earth [Node moon []], Node mars []]"

section \<open>Running the program\<close>

text \<open>\<^verbatim>\<open>main\<close>: the setup, then the loop over the inputs of the passes.\<close>

definition run_main :: "nat \<Rightarrow> (Vector3 \<Rightarrow> Camera \<Rightarrow> Vector2) \<Rightarrow> (string \<Rightarrow> int \<Rightarrow> int) \<Rightarrow> input list
      \<Rightarrow> (fault + state) option" where
  "run_main n GetWorldToScreen MeasureText inps =
     (case main_setup of
        Inl e \<Rightarrow> Some (Inl e)
      | Inr s \<Rightarrow> main_loop n GetWorldToScreen MeasureText inps s)"

definition main_state :: state where
  "main_state = (case main_setup of Inl e \<Rightarrow> main_start | Inr s \<Rightarrow> s)"

text \<open>Inputs of a pass: no key, the left arrow, the L key; the camera stays where
  \<^verbatim>\<open>main\<close> put it.\<close>

definition no_key :: input where
  "no_key = \<lparr>KEY_H = False, KEY_L = False, KEY_LEFT = False, KEY_RIGHT = False,
     UpdateCamera = main_camera\<rparr>"

definition left_key :: input where
  "left_key = no_key\<lparr>KEY_LEFT := True\<rparr>"

definition l_key :: input where
  "l_key = no_key\<lparr>KEY_L := True\<rparr>"

text \<open>Sample values of the two library functions, for the runs evaluated below: a
  projection that drops the depth, and a text width of one unit per character and size.\<close>

definition flat_projection :: "Vector3 \<Rightarrow> Camera \<Rightarrow> Vector2" where
  "flat_projection p cam = (fst p, fst (snd p))"

definition fixed_width :: "string \<Rightarrow> int \<Rightarrow> int" where
  "fixed_width txt fontSize = int (length txt) * fontSize"

text \<open>The orbital angle and the label anchor of body \<open>a\<close> after \<^verbatim>\<open>main\<close> has made the
  passes for \<open>inps\<close>.\<close>

definition orbit_after :: "nat \<Rightarrow> input list \<Rightarrow> addr \<Rightarrow> cfloat option" where
  "orbit_after n inps a =
     (case run_main n flat_projection fixed_width inps of
        Some (Inr s) \<Rightarrow> map_option orbitPosition (heap s a)
      | _ \<Rightarrow> None)"

definition label_after :: "nat \<Rightarrow> input list \<Rightarrow> addr \<Rightarrow> Vector2 option" where
  "label_after n inps a =
     (case run_main n flat_projection fixed_width inps of
        Some (Inr s) \<Rightarrow> map_option labelPosition (heap s a)
      | _ \<Rightarrow> None)"

text \<open>An angle reduced modulo 360.\<close>

definition mod360 :: "cfloat \<Rightarrow> cfloat" where
  "mod360 x = x - 360 * of_int \<lfloor>x / 360\<rfloor>"

text \<open>A store in which the sun already has \<^verbatim>\<open>MAX_BODY_CHILDREN\<close> children: the ten other
  bodies of \<^verbatim>\<open>main\<close>, all attached to it.\<close>

definition crowded :: state where
  "crowded =
     (case attach_all (map (Pair sun)
             [moon, mercury, venus, earth, mars, jupiter, saturn, uranus, neptune, pluto])
           main_start of
        Inl e \<Rightarrow> main_start
      | Inr s \<Rightarrow> s)"

section \<open>Lemmas about the store after a traversal\<close>

lemma drawn_Nil: "drawn G cam S [] [] h = h"
  by (rule ext) (simp add: drawn_def split: option.splits)

lemma drawn_append:
  "drawn G cam S v2 a2 (drawn G cam S v1 a1 h) = drawn G cam S (v1 @ v2) (a1 @ a2) h"
  by (rule ext) (auto simp: drawn_def distrib_right add_divide_distrib split: option.splits)

lemma drawn_advance:
  "h c = Some child \<Longrightarrow>
   h(c \<mapsto> child\<lparr>orbitPosition := orbitPosition child + S * 360 / orbitPeriod child\<rparr>)
     = drawn G cam S [] [c] h"
  by (rule ext) (auto simp: drawn_def split: option.splits)

lemma drawn_label:
  "h b = Some body \<Longrightarrow>
   h(b \<mapsto> body\<lparr>labelPosition := G (orbitRadius body, radius body, 0) cam\<rparr>)
     = drawn G cam S [b] [] h"
  by (rule ext) (auto simp: drawn_def split: option.splits)

lemma shape_drawn: "shape (drawn G cam S vis adv h) t = shape h t"
  by (induction h t rule: shape.induct) (auto simp: drawn_def split: option.splits)

lemma kids_drawn: "kids (drawn G cam S vis adv h) b i ts = kids h b i ts"
proof (cases "h b")
  case None
  then have "drawn G cam S vis adv h b = None" by (simp add: drawn_def)
  with None show ?thesis by (simp add: kids_def)
next
  case (Some body)
  then obtain body' where "drawn G cam S vis adv h b = Some body'"
    and "children body' = children body" and "childrenCount body' = childrenCount body"
    by (simp add: drawn_def)
  with Some show ?thesis by (simp add: kids_def shape_drawn)
qed

lemma periods_ok_drawn: "periods_ok (drawn G cam S vis adv h) as = periods_ok h as"
  by (auto simp: periods_ok_def drawn_def split: option.splits)

lemma entered_append: "entered (xs @ ys) = entered xs @ entered ys"
  by (induction xs rule: entered.induct) auto

lemma entered_label_append: "entered_label (xs @ ys) = entered_label xs @ entered_label ys"
  by (induction xs rule: entered_label.induct) auto

lemma shape_kids: "shape h (Node a ts) = kids h a 0 ts"
  by (simp add: kids_def split: option.splits)

lemma kids_Cons:
  assumes "kids h b i (t # ts)"
  shows "kids h b (Suc i) ts" and "shape h t"
    and "\<exists>body. h b = Some body \<and> int i < childrenCount body \<and> child_at body (int i) = Inr (root_of t)"
proof -
  from assms obtain body where b: "h b = Some body"
    and cnt: "childrenCount body = int (i + Suc (length ts))"
    and len: "i + Suc (length ts) \<le> length (children body)"
    and tk: "take (Suc (length ts)) (drop i (children body)) = Some (root_of t) # map (\<lambda>t. Some (root_of t)) ts"
    and sh: "shape h t" "\<forall>t \<in> set ts. shape h t"
    by (auto simp: kids_def split: option.splits)
  from len have ne: "drop i (children body) \<noteq> []" by auto
  then obtain x xs where d: "drop i (children body) = x # xs" by (cases "drop i (children body)") auto
  with tk have x: "x = Some (root_of t)" and xs: "take (length ts) xs = map (\<lambda>t. Some (root_of t)) ts"
    by auto
  have "drop (Suc i) (children body) = xs"
    using d by (metis drop_Suc tl_drop list.sel(3))
  with b cnt len xs sh show "kids h b (Suc i) ts"
    by (auto simp: kids_def)
  show "shape h t" by fact
  have "children body ! i = x" using d len
    by (metis Cons_nth_drop_Suc list.inject not_less drop_eq_Nil list.distinct(1))
  with b cnt len x show "\<exists>body. h b = Some body \<and> int i < childrenCount body \<and> child_at body (int i) = Inr (root_of t)"
    by (auto simp: child_at_def)
qed

lemma kids_Nil:
  assumes "kids h b i []"
  shows "\<exists>body. h b = Some body \<and> \<not> int i < childrenCount body"
  using assms by (auto simp: kids_def split: option.splits)

lemma shape_root: "shape h t \<Longrightarrow> \<exists>body. h (root_of t) = Some body"
  by (cases t) (auto split: option.splits)

lemma preorder_root: "preorder t = root_of t # descendants t"
  by (cases t) (simp add: descendants_def)

lemma periods_ok_append: "periods_ok h (xs @ ys) = (periods_ok h xs \<and> periods_ok h ys)"
  by (auto simp: periods_ok_def)

lemma periods_ok_Cons:
  "periods_ok h (x # xs) = ((case h x of None \<Rightarrow> True | Some body \<Rightarrow> orbitPeriod body \<noteq> 0) \<and> periods_ok h xs)"
  by (auto simp: periods_ok_def)

lemma state_upd_order: "(s::state)\<lparr>calls := c, heap := h\<rparr> = s\<lparr>heap := h, calls := c\<rparr>"
  by simp

section \<open>The draw traversal of a tree\<close>

lemma DrawBody_tree_aux:
  "(\<forall>n s. shape (heap s) t \<longrightarrow> periods_ok (heap s) (descendants t) \<longrightarrow> need t \<le> n \<longrightarrow>
      (\<exists>cs. DrawBody n G (root_of t) cam s
         = Some (Inr (s\<lparr>heap := drawn G cam (rotationSpeed s) (preorder t) (descendants t) (heap s),
                        calls := calls s @ cs\<rparr>))
         \<and> entered cs = preorder t \<and> entered_label cs = []))"
  and
  "(\<forall>n s b i. kids (heap s) b i ts \<longrightarrow> periods_ok (heap s) (concat (map preorder ts)) \<longrightarrow> needs ts \<le> n \<longrightarrow>
      (\<exists>cs. DrawBody_loop n G b cam (int i) s
         = Some (Inr (s\<lparr>heap := drawn G cam (rotationSpeed s) (concat (map preorder ts))
                                 (concat (map preorder ts)) (heap s),
                        calls := calls s @ cs\<rparr>))
         \<and> entered cs = concat (map preorder ts) \<and> entered_label cs = []))"
proof (induction t and ts rule: need_needs.induct)
  case (1 a ts)
  show ?case
  proof (intro allI impI)
    fix n and s :: state
    assume sh: "shape (heap s) (Node a ts)"
      and per: "periods_ok (heap s) (descendants (Node a ts))"
      and fuel: "need (Node a ts) \<le> n"
    from fuel obtain m where n: "n = Suc m" and m: "needs ts \<le> m"
      by (cases n) auto
    from sh obtain body where body: "heap s a = Some body"
      by (auto split: option.splits)
    define s1 where "s1 = s\<lparr>heap := drawn G cam (rotationSpeed s) [a] [] (heap s),
        calls := calls s @ [Enter_DrawBody a, DrawModel (model body) (0, 0, 0) (radius body)]\<rparr>"
    have step: "DrawBody n G a cam s = DrawBody_loop m G a cam (int 0) s1"
      using body drawn_label[where h = "heap s" and b = a and body = body and G = G and cam = cam and S = "rotationSpeed s"]
      by (simp add: n s1_def emit_def state_upd_order)
    have k1: "kids (heap s1) a 0 ts"
      using sh unfolding shape_kids by (simp add: s1_def kids_drawn)
    have p1: "periods_ok (heap s1) (concat (map preorder ts))"
      using per by (simp add: s1_def periods_ok_drawn descendants_def)
    from 1 k1 p1 m obtain cs where
      loop: "DrawBody_loop m G a cam (int 0) s1
         = Some (Inr (s1\<lparr>heap := drawn G cam (rotationSpeed s1) (concat (map preorder ts))
                                 (concat (map preorder ts)) (heap s1),
                        calls := calls s1 @ cs\<rparr>))"
      and ent: "entered cs = concat (map preorder ts)" "entered_label cs = []"
      by blast
    show "\<exists>cs. DrawBody n G (root_of (Node a ts)) cam s
         = Some (Inr (s\<lparr>heap := drawn G cam (rotationSpeed s) (preorder (Node a ts))
                 (descendants (Node a ts)) (heap s), calls := calls s @ cs\<rparr>))
         \<and> entered cs = preorder (Node a ts) \<and> entered_label cs = []"
      apply (rule exI[of _ "[Enter_DrawBody a, DrawModel (model body) (0, 0, 0) (radius body)] @ cs"])
      using step loop ent
      by (simp add: s1_def drawn_append descendants_def)
  qed
next
  case 2
  show ?case
  proof (intro allI impI)
    fix n and s :: state and b i
    assume k: "kids (heap s) b i []" and fuel: "needs [] \<le> n"
    from fuel obtain m where n: "n = Suc m" by (cases n) auto
    from kids_Nil[OF k] obtain body where "heap s b = Some body" "\<not> int i < childrenCount body"
      by blast
    then show "\<exists>cs. DrawBody_loop n G b cam (int i) s
         = Some (Inr (s\<lparr>heap := drawn G cam (rotationSpeed s) (concat (map preorder []))
                 (concat (map preorder [])) (heap s), calls := calls s @ cs\<rparr>))
         \<and> entered cs = concat (map preorder []) \<and> entered_label cs = []"
      by (intro exI[of _ "[]"]) (simp add: n drawn_Nil)
  qed
next
  case (3 t ts)
  show ?case
  proof (intro allI impI)
    fix n and s :: state and b i
    assume k: "kids (heap s) b i (t # ts)"
      and per: "periods_ok (heap s) (concat (map preorder (t # ts)))"
      and fuel: "needs (t # ts) \<le> n"
    from fuel obtain m where n: "n = Suc m" and mt: "need t \<le> m" and mts: "needs ts \<le> m"
      by (cases n) auto
    let ?S = "rotationSpeed s"
    let ?c = "root_of t"
    from kids_Cons[OF k] obtain body where body: "heap s b = Some body"
      and lt: "int i < childrenCount body" and at: "child_at body (int i) = Inr ?c"
      and k': "kids (heap s) b (Suc i) ts" and sh: "shape (heap s) t"
      by blast
    from shape_root[OF sh] obtain child where child: "heap s ?c = Some child" by blast
    have nz: "orbitPeriod child \<noteq> 0"
      using per child by (simp add: periods_ok_append periods_ok_Cons preorder_root[of t])
    define child' where "child' = child\<lparr>orbitPosition := orbitPosition child + ?S * 360 / orbitPeriod child\<rparr>"
    define pre where "pre = [rlPushMatrix, rlRotatef (orbitPosition child') 0 1 0,
        rlTranslatef (orbitRadius child') 0 0, rlRotatef (- orbitPosition child') 0 1 0]"
    define s1 where "s1 = s\<lparr>heap := drawn G cam ?S [] [?c] (heap s), calls := calls s @ pre\<rparr>"
    have sh1: "shape (heap s1) t" using sh by (simp add: s1_def shape_drawn)
    have p1: "periods_ok (heap s1) (descendants t)"
      using per by (simp add: s1_def periods_ok_drawn periods_ok_append periods_ok_Cons preorder_root[of t])
    from 3(1) sh1 p1 mt obtain cs1 where
      rec: "DrawBody m G ?c cam s1
         = Some (Inr (s1\<lparr>heap := drawn G cam (rotationSpeed s1) (preorder t) (descendants t) (heap s1),
                        calls := calls s1 @ cs1\<rparr>))"
      and ent1: "entered cs1 = preorder t" "entered_label cs1 = []"
      by blast
    define h2 where "h2 = drawn G cam ?S (preorder t) (preorder t) (heap s)"
    have h2: "drawn G cam (rotationSpeed s1) (preorder t) (descendants t) (heap s1) = h2"
      by (simp add: s1_def h2_def drawn_append preorder_root[of t, symmetric])
    obtain child2 where child2: "h2 ?c = Some child2" and or2: "orbitRadius child2 = orbitRadius child"
      using child by (simp add: h2_def drawn_def)
    define s2 where "s2 = s\<lparr>heap := h2,
        calls := calls s @ pre @ cs1 @ [rlPopMatrix, DrawCircle3D (0, 0, 0) (orbitRadius child) (1, 0, 0) 90]\<rparr>"
    have idx: "int i + 1 = int (Suc i)" by simp
    have step: "DrawBody_loop n G b cam (int i) s = DrawBody_loop m G b cam (int i + 1) s2"
      using body lt at child nz rec[unfolded h2] child2 or2
        drawn_advance[where h = "heap s" and c = ?c and child = child and G = G and cam = cam and S = ?S]
      by (simp add: n emit_def s1_def s2_def pre_def child'_def Let_def state_upd_order)
    have k2: "kids (heap s2) b (Suc i) ts"
      using k' by (simp add: s2_def h2_def kids_drawn)
    have p2: "periods_ok (heap s2) (concat (map preorder ts))"
      using per by (simp add: s2_def h2_def periods_ok_drawn periods_ok_append)
    from 3(2) k2 p2 mts obtain cs2 where
      loop: "DrawBody_loop m G b cam (int (Suc i)) s2
         = Some (Inr (s2\<lparr>heap := drawn G cam (rotationSpeed s2) (concat (map preorder ts))
                                 (concat (map preorder ts)) (heap s2),
                        calls := calls s2 @ cs2\<rparr>))"
      and ent2: "entered cs2 = concat (map preorder ts)" "entered_label cs2 = []"
      by blast
    show "\<exists>cs. DrawBody_loop n G b cam (int i) s
         = Some (Inr (s\<lparr>heap := drawn G cam (rotationSpeed s) (concat (map preorder (t # ts)))
                 (concat (map preorder (t # ts))) (heap s), calls := calls s @ cs\<rparr>))
         \<and> entered cs = concat (map preorder (t # ts)) \<and> entered_label cs = []"
      apply (rule exI[of _ "pre @ cs1 @ [rlPopMatrix, DrawCircle3D (0, 0, 0) (orbitRadius child) (1, 0, 0) 90] @ cs2"])
      using step[unfolded idx] loop ent1 ent2
      by (simp add: s2_def h2_def drawn_append entered_append entered_label_append pre_def)
  qed
qed

section \<open>The label traversal\<close>

lemma DrawBodyLabel_tree_aux:
  "(\<forall>n s. shape (heap s) t \<longrightarrow> need t \<le> n \<longrightarrow>
      (\<exists>cs. DrawBodyLabel n M (root_of t) s = Some (Inr (s\<lparr>calls := calls s @ cs\<rparr>))
         \<and> entered_label cs = preorder t \<and> entered cs = []))"
  and
  "(\<forall>n s b i. kids (heap s) b i ts \<longrightarrow> needs ts \<le> n \<longrightarrow>
      (\<exists>cs. DrawBodyLabel_loop n M b (int i) s = Some (Inr (s\<lparr>calls := calls s @ cs\<rparr>))
         \<and> entered_label cs = concat (map preorder ts) \<and> entered cs = []))"
proof (induction t and ts rule: need_needs.induct)
  case (1 a ts)
  show ?case
  proof (intro allI impI)
    fix n and s :: state
    assume sh: "shape (heap s) (Node a ts)" and fuel: "need (Node a ts) \<le> n"
    from fuel obtain m where n: "n = Suc m" and m: "needs ts \<le> m"
      by (cases n) auto
    from sh obtain body where body: "heap s a = Some body"
      by (auto split: option.splits)
    define hd where "hd = [Enter_DrawBodyLabel a, DrawText (label body)
        (c_int (fst (labelPosition body) - of_int (c_div (M (label body) 20) 2)))
        (c_int (snd (labelPosition body))) 20]"
    define s1 where "s1 = s\<lparr>calls := calls s @ hd\<rparr>"
    have step: "DrawBodyLabel n M a s = DrawBodyLabel_loop m M a (int 0) s1"
      using body by (simp add: n s1_def hd_def emit_def)
    have k1: "kids (heap s1) a 0 ts"
      using sh unfolding shape_kids by (simp add: s1_def)
    from 1 k1 m obtain cs where
      loop: "DrawBodyLabel_loop m M a (int 0) s1 = Some (Inr (s1\<lparr>calls := calls s1 @ cs\<rparr>))"
      and ent: "entered_label cs = concat (map preorder ts)" "entered cs = []"
      by blast
    show "\<exists>cs. DrawBodyLabel n M (root_of (Node a ts)) s = Some (Inr (s\<lparr>calls := calls s @ cs\<rparr>))
         \<and> entered_label cs = preorder (Node a ts) \<and> entered cs = []"
      apply (rule exI[of _ "hd @ cs"])
      using step loop ent
      by (simp add: s1_def hd_def)
  qed
next
  case 2
  show ?case
  proof (intro allI impI)
    fix n and s :: state and b i
    assume k: "kids (heap s) b i []" and fuel: "needs [] \<le> n"
    from fuel obtain m where n: "n = Suc m" by (cases n) auto
    from kids_Nil[OF k] obtain body where "heap s b = Some body" "\<not> int i < childrenCount body"
      by blast
    then show "\<exists>cs. DrawBodyLabel_loop n M b (int i) s = Some (Inr (s\<lparr>calls := calls s @ cs\<rparr>))
         \<and> entered_label cs = concat (map preorder []) \<and> entered cs = []"
      by (intro exI[of _ "[]"]) (simp add: n)
  qed
next
  case (3 t ts)
  show ?case
  proof (intro allI impI)
    fix n and s :: state and b i
    assume k: "kids (heap s) b i (t # ts)" and fuel: "needs (t # ts) \<le> n"
    from fuel obtain m where n: "n = Suc m" and mt: "need t \<le> m" and mts: "needs ts \<le> m"
      by (cases n) auto
    from kids_Cons[OF k] obtain body where body: "heap s b = Some body"
      and lt: "int i < childrenCount body" and at: "child_at body (int i) = Inr (root_of t)"
      and k': "kids (heap s) b (Suc i) ts" and sh: "shape (heap s) t"
      by blast
    from 3(1) sh mt obtain cs1 where
      rec: "DrawBodyLabel m M (root_of t) s = Some (Inr (s\<lparr>calls := calls s @ cs1\<rparr>))"
      and ent1: "entered_label cs1 = preorder t" "entered cs1 = []"
      by blast
    define s2 where "s2 = s\<lparr>calls := calls s @ cs1\<rparr>"
    have idx: "int i + 1 = int (Suc i)" by simp
    have step: "DrawBodyLabel_loop n M b (int i) s = DrawBodyLabel_loop m M b (int i + 1) s2"
      using body lt at rec by (simp add: n s2_def)
    have k2: "kids (heap s2) b (Suc i) ts"
      using k' by (simp add: s2_def)
    from 3(2) k2 mts obtain cs2 where
      loop: "DrawBodyLabel_loop m M b (int (Suc i)) s2 = Some (Inr (s2\<lparr>calls := calls s2 @ cs2\<rparr>))"
      and ent2: "entered_label cs2 = concat (map preorder ts)" "entered cs2 = []"
      by blast
    show "\<exists>cs. DrawBodyLabel_loop n M b (int i) s = Some (Inr (s\<lparr>calls := calls s @ cs\<rparr>))
         \<and> entered_label cs = concat (map preorder (t # ts)) \<and> entered cs = []"
      apply (rule exI[of _ "cs1 @ cs2"])
      using step[unfolded idx] loop ent1 ent2
      by (simp add: s2_def entered_label_append entered_append)
  qed
qed

text \<open>On any store, tree or not, a label traversal that returns has only made calls.\<close>

lemma DrawBodyLabel_calls_only:
  "DrawBodyLabel n M b s = Some (Inr s') \<longrightarrow> (\<exists>cs. s' = s\<lparr>calls := calls s @ cs\<rparr>)"
  and
  "DrawBodyLabel_loop n M b i s = Some (Inr s') \<longrightarrow> (\<exists>cs. s' = s\<lparr>calls := calls s @ cs\<rparr>)"
proof (induction n M b s and n M b i s arbitrary: s' and s' rule: DrawBodyLabel_DrawBodyLabel_loop.induct)
  case (1 M b s)
  show ?case by simp
next
  case (2 n M b s)
  show ?case
  proof
    assume a: "DrawBodyLabel (Suc n) M b s = Some (Inr s')"
    then obtain body where body: "heap s b = Some body"
      by (auto split: option.splits)
    define hd where "hd = [Enter_DrawBodyLabel b, DrawText (label body)
        (c_int (fst (labelPosition body) - of_int (c_div (M (label body) 20) 2)))
        (c_int (snd (labelPosition body))) 20]"
    from a body have "DrawBodyLabel_loop n M b 0 (s\<lparr>calls := calls s @ hd\<rparr>) = Some (Inr s')"
      by (simp add: emit_def hd_def)
    with 2[OF body refl refl, of s'] obtain cs where "s' = s\<lparr>calls := calls s @ hd @ cs\<rparr>"
      by (auto simp: emit_def hd_def)
    then show "\<exists>cs. s' = s\<lparr>calls := calls s @ cs\<rparr>" by blast
  qed
next
  case (3 M b i s)
  show ?case by simp
next
  case (4 n M b i s)
  show ?case
  proof
    assume a: "DrawBodyLabel_loop (Suc n) M b i s = Some (Inr s')"
    then obtain body where body: "heap s b = Some body"
      by (auto split: option.splits)
    show "\<exists>cs. s' = s\<lparr>calls := calls s @ cs\<rparr>"
    proof (cases "i < childrenCount body")
      case False
      with a body have "s' = s" by simp
      then show ?thesis by (intro exI[of _ "[]"]) simp
    next
      case True
      with a body obtain c s1 where c: "child_at body i = Inr c"
        and r: "DrawBodyLabel n M c s = Some (Inr s1)"
        and l: "DrawBodyLabel_loop n M b (i + 1) s1 = Some (Inr s')"
        by (auto split: sum.splits option.splits)
      from 4(1)[OF body True c, of s1] r obtain cs1 where s1: "s1 = s\<lparr>calls := calls s @ cs1\<rparr>"
        by blast
      from 4(2)[OF body True c r refl, of s'] l obtain cs2 where "s' = s1\<lparr>calls := calls s1 @ cs2\<rparr>"
        by blast
      with s1 have "s' = s\<lparr>calls := calls s @ cs1 @ cs2\<rparr>" by simp
      then show ?thesis by blast
    qed
  qed
qed

section \<open>The draw traversal of any store\<close>

lemma DrawBody_drawn_aux:
  "DrawBody n G b cam s = Some (Inr s') \<longrightarrow>
     (\<exists>vis adv cs. b \<in> set vis \<and>
        s' = s\<lparr>heap := drawn G cam (rotationSpeed s) vis adv (heap s), calls := calls s @ cs\<rparr>)"
  and
  "DrawBody_loop n G b cam i s = Some (Inr s') \<longrightarrow>
     (\<exists>vis adv cs.
        s' = s\<lparr>heap := drawn G cam (rotationSpeed s) vis adv (heap s), calls := calls s @ cs\<rparr>)"
proof (induction n G b cam s and n G b cam i s arbitrary: s' and s'
    rule: DrawBody_DrawBody_loop.induct)
  case (1 G b cam s)
  show ?case by simp
next
  case (2 n G b cam s)
  show ?case
  proof
    assume a: "DrawBody (Suc n) G b cam s = Some (Inr s')"
    then obtain body where body: "heap s b = Some body"
      by (auto split: option.splits)
    define hd where "hd = [Enter_DrawBody b, DrawModel (model body) (0, 0, 0) (radius body)]"
    define s1 where "s1 = s\<lparr>heap := drawn G cam (rotationSpeed s) [b] [] (heap s),
        calls := calls s @ hd\<rparr>"
    have s1: "s1 = (emit (DrawModel (model body) (0, 0, 0) (radius body)) (emit (Enter_DrawBody b) s))
           \<lparr>heap := (heap (emit (DrawModel (model body) (0, 0, 0) (radius body)) (emit (Enter_DrawBody b) s)))
              (b \<mapsto> body\<lparr>labelPosition := G (orbitRadius body, radius body, 0) cam\<rparr>)\<rparr>"
      using drawn_label[where h = "heap s" and b = b and body = body and G = G and cam = cam
          and S = "rotationSpeed s"] body
      by (simp add: s1_def hd_def emit_def state_upd_order)
    from a body have l: "DrawBody_loop n G b cam 0 s1 = Some (Inr s')"
      unfolding s1 by (simp add: Let_def)
    from 2[OF body refl refl refl s1, of s'] l
    obtain vis adv cs where "s' = s1\<lparr>heap := drawn G cam (rotationSpeed s1) vis adv (heap s1),
        calls := calls s1 @ cs\<rparr>"
      by blast
    then have "s' = s\<lparr>heap := drawn G cam (rotationSpeed s) ([b] @ vis) ([] @ adv) (heap s),
        calls := calls s @ hd @ cs\<rparr>"
      by (simp add: s1_def drawn_append)
    then show "\<exists>vis adv cs. b \<in> set vis \<and>
        s' = s\<lparr>heap := drawn G cam (rotationSpeed s) vis adv (heap s), calls := calls s @ cs\<rparr>"
      by (intro exI[of _ "[b] @ vis"] exI[of _ "[] @ adv"] exI[of _ "hd @ cs"]) simp
  qed
next
  case (3 G b cam i s)
  show ?case by simp
next
  case (4 n G b cam i s)
  show ?case
  proof
    assume a: "DrawBody_loop (Suc n) G b cam i s = Some (Inr s')"
    then obtain body where body: "heap s b = Some body"
      by (auto split: option.splits)
    show "\<exists>vis adv cs.
        s' = s\<lparr>heap := drawn G cam (rotationSpeed s) vis adv (heap s), calls := calls s @ cs\<rparr>"
    proof (cases "i < childrenCount body")
      case False
      with a body have "s' = s\<lparr>heap := drawn G cam (rotationSpeed s) [] [] (heap s), calls := calls s @ []\<rparr>"
        by (simp add: drawn_Nil)
      then show ?thesis by blast
    next
      case True
      let ?S = "rotationSpeed s"
      from a body True obtain c where c: "child_at body i = Inr c"
        by (auto split: sum.splits)
      from a body True c obtain child where child: "heap s c = Some child"
        by (auto split: option.splits)
      from a body True c child have nz: "orbitPeriod child \<noteq> 0"
        by (auto split: if_splits)
      define child' where "child' = child\<lparr>orbitPosition := orbitPosition child + ?S * 360 / orbitPeriod child\<rparr>"
      define pre where "pre = [rlPushMatrix, rlRotatef (orbitPosition child') 0 1 0,
        rlTranslatef (orbitRadius child') 0 0, rlRotatef (- orbitPosition child') 0 1 0]"
      define s1 where "s1 = s\<lparr>heap := drawn G cam ?S [] [c] (heap s), calls := calls s @ pre\<rparr>"
      have s1: "s1 = emit (rlRotatef (- orbitPosition child') 0 1 0) (emit (rlTranslatef (orbitRadius child') 0 0)
          (emit (rlRotatef (orbitPosition child') 0 1 0) (emit rlPushMatrix (s\<lparr>heap := (heap s)(c \<mapsto> child')\<rparr>))))"
        using drawn_advance[where h = "heap s" and c = c and child = child and G = G and cam = cam and S = ?S] child
        by (simp add: s1_def pre_def emit_def child'_def)
      have step: "DrawBody_loop (Suc n) G b cam i s =
          (case DrawBody n G c cam s1 of None \<Rightarrow> None | Some (Inl e) \<Rightarrow> Some (Inl e)
           | Some (Inr s) \<Rightarrow>
               let s = emit rlPopMatrix s
               in (case heap s c of None \<Rightarrow> Some (Inl InvalidPointer)
                   | Some child \<Rightarrow>
                       let s = emit (DrawCircle3D (0, 0, 0) (orbitRadius child) (1, 0, 0) 90) s
                       in DrawBody_loop n G b cam (i + 1) s))"
        using body True c child nz unfolding s1 by (simp add: Let_def child'_def)
      from a obtain s2 where r: "DrawBody n G c cam s1 = Some (Inr s2)"
        unfolding step by (auto split: option.splits sum.splits)
      from 4(1)[OF body True c child nz child'_def refl refl refl refl s1, of s2] r
      obtain vis1 adv1 cs1 where
        s2: "s2 = s1\<lparr>heap := drawn G cam (rotationSpeed s1) vis1 adv1 (heap s1), calls := calls s1 @ cs1\<rparr>"
        by blast
      from a r obtain child2 where child2: "heap (emit rlPopMatrix s2) c = Some child2"
        unfolding step by (auto simp: Let_def split: option.splits)
      define s4 where "s4 = emit (DrawCircle3D (0, 0, 0) (orbitRadius child2) (1, 0, 0) 90) (emit rlPopMatrix s2)"
      from a r child2 have l: "DrawBody_loop n G b cam (i + 1) s4 = Some (Inr s')"
        unfolding step by (simp add: Let_def s4_def)
      from 4(2)[OF body True c child nz child'_def refl refl refl refl s1 r refl refl child2 s4_def, of s'] l
      obtain vis2 adv2 cs2 where
        s': "s' = s4\<lparr>heap := drawn G cam (rotationSpeed s4) vis2 adv2 (heap s4), calls := calls s4 @ cs2\<rparr>"
        by blast
      have "s' = s\<lparr>heap := drawn G cam ?S ([] @ vis1 @ vis2) ([c] @ adv1 @ adv2) (heap s),
          calls := calls s @ (pre @ cs1 @ [rlPopMatrix, DrawCircle3D (0, 0, 0) (orbitRadius child2) (1, 0, 0) 90] @ cs2)\<rparr>"
        unfolding s' s4_def s2 by (simp add: s1_def emit_def drawn_append state_upd_order)
      then show ?thesis by blast
    qed
  qed
qed

section \<open>One pass of the main loop, and many\<close>

lemma update_fields:
  "heap (update inp s) = heap s" "calls (update inp s) = calls s"
  "camera (update inp s) = UpdateCamera inp"
  "rotationSpeed (update inp s) = key_speed inp (rotationSpeed s)"
  "showBodyLabels (update inp s) = (if KEY_L inp then \<not> showBodyLabels s else showBodyLabels s)"
  by (simp_all add: update_def key_speed_def Let_def)

lemma frame_tree:
  assumes sh: "shape (heap s) t" and rt: "root_of t = sun"
    and per: "periods_ok (heap s) (descendants t)" and fuel: "need t \<le> n"
  shows "\<exists>s' cs. frame n G M inp s = Some (Inr s')
      \<and> heap s' = drawn G (UpdateCamera inp) (key_speed inp (rotationSpeed s)) (preorder t) (descendants t) (heap s)
      \<and> rotationSpeed s' = key_speed inp (rotationSpeed s)
      \<and> showBodyLabels s' = showBodyLabels (update inp s)
      \<and> calls s' = calls s @ cs
      \<and> entered cs = preorder t
      \<and> entered_label cs = (if showBodyLabels (update inp s) then preorder t else [])"
proof -
  define s1 where "s1 = emit (BeginMode3D (camera (update inp s))) (update inp s)"
  have h1: "heap s1 = heap s" and r1: "rotationSpeed s1 = key_speed inp (rotationSpeed s)"
    and c1: "camera s1 = UpdateCamera inp" and l1: "showBodyLabels s1 = showBodyLabels (update inp s)"
    and k1: "calls s1 = calls s @ [BeginMode3D (UpdateCamera inp)]"
    by (simp_all add: s1_def emit_def update_fields)
  from DrawBody_tree_aux(1)[of t G "UpdateCamera inp"] sh per fuel h1
  obtain cs1 where d: "DrawBody n G sun (UpdateCamera inp) s1 = Some (Inr (s1\<lparr>heap :=
        drawn G (UpdateCamera inp) (rotationSpeed s1) (preorder t) (descendants t) (heap s1),
        calls := calls s1 @ cs1\<rparr>))"
    and e1: "entered cs1 = preorder t" "entered_label cs1 = []"
    unfolding rt by (metis (no_types))
  define s2 where "s2 = emit EndMode3D (s1\<lparr>heap :=
        drawn G (UpdateCamera inp) (rotationSpeed s1) (preorder t) (descendants t) (heap s1),
        calls := calls s1 @ cs1\<rparr>)"
  have h2: "heap s2 = drawn G (UpdateCamera inp) (key_speed inp (rotationSpeed s)) (preorder t) (descendants t) (heap s)"
    and r2: "rotationSpeed s2 = key_speed inp (rotationSpeed s)"
    and l2: "showBodyLabels s2 = showBodyLabels (update inp s)"
    and k2: "calls s2 = calls s @ [BeginMode3D (UpdateCamera inp)] @ cs1 @ [EndMode3D]"
    by (simp_all add: s2_def emit_def h1 r1 l1 k1)
  have sh2: "shape (heap s2) t" using sh by (simp add: h2 shape_drawn)
  obtain s3 cs2 where lab: "showBodyLabels s2 \<Longrightarrow> DrawBodyLabel n M sun s2 = Some (Inr s3)"
      "\<not> showBodyLabels s2 \<Longrightarrow> s2 = s3"
    and s3: "s3 = s2\<lparr>calls := calls s2 @ cs2\<rparr>"
    and e2: "entered cs2 = []" "entered_label cs2 = (if showBodyLabels s2 then preorder t else [])"
  proof (cases "showBodyLabels s2")
    case True
    from DrawBodyLabel_tree_aux(1)[of t M] sh2 fuel
    obtain cs where "DrawBodyLabel n M sun s2 = Some (Inr (s2\<lparr>calls := calls s2 @ cs\<rparr>))"
      "entered_label cs = preorder t" "entered cs = []"
      unfolding rt by (metis (no_types))
    with True that show ?thesis by simp
  next
    case False
    with that[of s2 "[]"] show ?thesis by simp
  qed
  define tl where "tl = [DrawSpeedText (rotationSpeed s3), DrawHelpText (showHelpMenu s3), DrawFPS]"
  define s4 where "s4 = s3\<lparr>calls := calls s3 @ tl\<rparr>"
  have f: "frame n G M inp s = Some (Inr s4)"
    using d lab unfolding frame_def Let_def s1_def[symmetric] c1
    apply (simp add: s2_def[symmetric])
    apply (auto simp add: s4_def tl_def emit_def)
    done
  show ?thesis
    apply (rule exI[of _ s4])
    apply (rule exI[of _ "[BeginMode3D (UpdateCamera inp)] @ cs1 @ [EndMode3D] @ cs2 @ tl"])
    using f e1 e2
    by (simp add: s4_def s3 h2 r2 l2 k2 entered_append entered_label_append tl_def)
qed

lemma main_loop_tree:
  assumes "shape (heap s) t" and "root_of t = sun"
    and "periods_ok (heap s) (descendants t)" and "need t \<le> n"
  shows "\<exists>s'. main_loop n G M inps s = Some (Inr s')
      \<and> heap s' = frames_heap G t inps (rotationSpeed s) (heap s)
      \<and> rotationSpeed s' = foldl (\<lambda>S inp. key_speed inp S) (rotationSpeed s) inps"
  using assms
proof (induction inps arbitrary: s)
  case Nil
  show ?case by simp
next
  case (Cons inp inps)
  from frame_tree[OF Cons.prems, of G M inp] obtain s1 where
    f: "frame n G M inp s = Some (Inr s1)"
    and h1: "heap s1 = drawn G (UpdateCamera inp) (key_speed inp (rotationSpeed s)) (preorder t) (descendants t) (heap s)"
    and r1: "rotationSpeed s1 = key_speed inp (rotationSpeed s)"
    by blast
  have "shape (heap s1) t" "periods_ok (heap s1) (descendants t)"
    using Cons.prems by (simp_all add: h1 shape_drawn periods_ok_drawn)
  from Cons.IH[OF this(1) Cons.prems(2) this(2) Cons.prems(4)] obtain s' where
    "main_loop n G M inps s1 = Some (Inr s')"
    "heap s' = frames_heap G t inps (rotationSpeed s1) (heap s1)"
    "rotationSpeed s' = foldl (\<lambda>S inp. key_speed inp S) (rotationSpeed s1) inps"
    by blast
  with f h1 r1 show ?case by simp
qed

text \<open>On any store, a pass that returns has changed the store as some draw traversal does.\<close>

lemma frame_drawn:
  assumes "frame n G M inp s = Some (Inr s')"
  shows "\<exists>vis adv. heap s' = drawn G (UpdateCamera inp) (key_speed inp (rotationSpeed s)) vis adv (heap s)"
proof -
  define s1 where "s1 = emit (BeginMode3D (camera (update inp s))) (update inp s)"
  have h1: "heap s1 = heap s" and r1: "rotationSpeed s1 = key_speed inp (rotationSpeed s)"
    and c1: "camera s1 = UpdateCamera inp"
    by (simp_all add: s1_def emit_def update_fields)
  from assms obtain s2 where d: "DrawBody n G sun (UpdateCamera inp) s1 = Some (Inr s2)"
    unfolding frame_def Let_def s1_def[symmetric] c1
    by (auto split: option.splits sum.splits)
  from DrawBody_drawn_aux(1)[of n G sun "UpdateCamera inp" s1 s2] d obtain vis adv cs where
    s2: "s2 = s1\<lparr>heap := drawn G (UpdateCamera inp) (rotationSpeed s1) vis adv (heap s1), calls := calls s1 @ cs\<rparr>"
    by blast
  define s3 where "s3 = emit EndMode3D s2"
  from assms d obtain s4 where l: "(if showBodyLabels s3 then DrawBodyLabel n M sun s3 else Some (Inr s3)) = Some (Inr s4)"
    and s': "s' = emit DrawFPS (emit (DrawHelpText (showHelpMenu (emit (DrawSpeedText (rotationSpeed s4)) s4))) (emit (DrawSpeedText (rotationSpeed s4)) s4))"
    unfolding frame_def Let_def s1_def[symmetric] c1
    by (auto simp: s3_def split: option.splits sum.splits if_splits)
  have "heap s4 = heap s3"
    using l DrawBodyLabel_calls_only(1)[of n M sun s3 s4] by (auto split: if_splits)
  then have "heap s' = drawn G (UpdateCamera inp) (key_speed inp (rotationSpeed s)) vis adv (heap s)"
    by (simp add: s' emit_def s3_def s2 h1 r1)
  then show ?thesis by blast
qed

lemma drawn_Some:
  "h a = Some body \<Longrightarrow> drawn G cam S vis adv h a = Some (body\<lparr>
         orbitPosition := orbitPosition body + of_nat (count_list adv a) * (S * 360 / orbitPeriod body),
         labelPosition := (if a \<in> set vis then G (orbitRadius body, radius body, 0) cam
                           else labelPosition body)\<rparr>)"
  by (simp add: drawn_def)

lemma drawn_None: "h a = None \<Longrightarrow> drawn G cam S vis adv h a = None"
  by (simp add: drawn_def)

lemma drawn_rotationPosition:
  "map_option rotationPosition (drawn G cam S vis adv h a) = map_option rotationPosition (h a)"
  by (simp add: drawn_def split: option.splits)

lemma main_loop_rotationPosition:
  "main_loop n G M inps s = Some (Inr s') \<Longrightarrow>
   map_option rotationPosition (heap s' a) = map_option rotationPosition (heap s a)"
proof (induction inps arbitrary: s)
  case Nil
  then show ?case by simp
next
  case (Cons inp inps)
  from Cons.prems obtain s1 where f: "frame n G M inp s = Some (Inr s1)"
    and m: "main_loop n G M inps s1 = Some (Inr s')"
    by (auto split: option.splits sum.splits)
  from frame_drawn[OF f] obtain vis adv where
    "heap s1 = drawn G (UpdateCamera inp) (key_speed inp (rotationSpeed s)) vis adv (heap s)"
    by blast
  with Cons.IH[OF m] show ?case by (simp add: drawn_rotationPosition)
qed

text \<open>Passes at constant speed.\<close>

lemma frames_heap_const:
  assumes "\<forall>inp \<in> set inps. \<not> KEY_LEFT inp \<and> \<not> KEY_RIGHT inp" and "h a = Some body"
  shows "\<exists>lp. frames_heap G t inps S h a = Some (body\<lparr>
         orbitPosition := orbitPosition body
           + of_nat (length inps) * (of_nat (count_list (descendants t) a) * (S * 360 / orbitPeriod body)),
         labelPosition := lp\<rparr>)"
  using assms
proof (induction inps arbitrary: h body)
  case Nil
  have "body = body\<lparr>orbitPosition := orbitPosition body + of_nat (length ([]::input list))
      * (of_nat (count_list (descendants t) a) * (S * 360 / orbitPeriod body)), labelPosition := labelPosition body\<rparr>"
    by simp
  with Nil show ?case by (metis frames_heap.simps(1))
next
  case (Cons inp inps)
  have ks: "key_speed inp S = S" using Cons.prems by (simp add: key_speed_def)
  let ?h1 = "drawn G (UpdateCamera inp) S (preorder t) (descendants t) h"
  let ?b1 = "body\<lparr>
         orbitPosition := orbitPosition body + of_nat (count_list (descendants t) a) * (S * 360 / orbitPeriod body),
         labelPosition := (if a \<in> set (preorder t) then G (orbitRadius body, radius body, 0) (UpdateCamera inp)
                           else labelPosition body)\<rparr>"
  have b1: "?h1 a = Some ?b1" using Cons.prems(2) by (rule drawn_Some)
  have "\<forall>inp \<in> set inps. \<not> KEY_LEFT inp \<and> \<not> KEY_RIGHT inp" using Cons.prems(1) by simp
  from Cons.IH[of ?h1 ?b1, OF this b1] obtain lp where
    "frames_heap G t inps S ?h1 a = Some (?b1\<lparr>
         orbitPosition := orbitPosition ?b1
           + of_nat (length inps) * (of_nat (count_list (descendants t) a) * (S * 360 / orbitPeriod ?b1)),
         labelPosition := lp\<rparr>)"
    by auto
  then show ?case
    by (intro exI[of _ lp]) (simp add: ks distrib_right add.assoc add_divide_distrib)
qed

section \<open>The store that main builds\<close>

lemmas addr_defs = sun_def moon_def mercury_def venus_def earth_def mars_def jupiter_def
  saturn_def uranus_def neptune_def pluto_def

lemma main_setup_eq: "main_setup = Inr main_state"
  by (simp add: main_state_def main_setup_def attach_def AddBodyChildren_def main_start_def
      main_bodies_def CreateBody_def zeroBody_def MAX_BODY_CHILDREN_def addr_defs Let_def)

lemma preorder_main: "preorder main_tree = [sun, mercury, venus, earth, moon, mars]"
  by (simp add: main_tree_def)

lemma need_main: "need main_tree = 8"
  by (simp add: main_tree_def)

lemma replicate_10: "replicate 10 x = [x, x, x, x, x, x, x, x, x, x]"
  by (simp add: eval_nat_numeral)

lemma main_shape: "shape (heap main_state) main_tree"
  by (simp add: main_tree_def main_state_def main_setup_def attach_def AddBodyChildren_def main_start_def
      main_bodies_def CreateBody_def zeroBody_def MAX_BODY_CHILDREN_def addr_defs Let_def replicate_10)

lemma main_periods: "periods_ok (heap main_state) (descendants main_tree)"
  by (simp add: descendants_def periods_ok_def main_tree_def main_state_def main_setup_def attach_def AddBodyChildren_def main_start_def
      main_bodies_def CreateBody_def zeroBody_def MAX_BODY_CHILDREN_def addr_defs Let_def replicate_10)

lemma main_distinct: "distinct (preorder main_tree)"
  by (simp add: main_tree_def addr_defs)

lemma main_speed: "rotationSpeed main_state = 2/10"
  by (simp add: main_state_def main_setup_def attach_def AddBodyChildren_def main_start_def
      main_bodies_def CreateBody_def zeroBody_def MAX_BODY_CHILDREN_def addr_defs Let_def replicate_10)

lemma main_zero_angles:
  "heap main_state a = Some body \<Longrightarrow> orbitPosition body = 0 \<and> rotationPosition body = 0"
  by (auto simp add: main_state_def main_setup_def attach_def AddBodyChildren_def main_start_def
      main_bodies_def CreateBody_def zeroBody_def MAX_BODY_CHILDREN_def addr_defs Let_def replicate_10
      split: if_splits)

lemma main_mercury: "\<exists>body. heap main_state mercury = Some body \<and> orbitPeriod body = 90 \<and> orbitPosition body = 0"
  by (simp add: main_state_def main_setup_def attach_def AddBodyChildren_def main_start_def
      main_bodies_def CreateBody_def zeroBody_def MAX_BODY_CHILDREN_def addr_defs Let_def replicate_10)

section \<open>Further lemmas\<close>

lemma count_list_distinct: "distinct xs \<Longrightarrow> x \<in> set xs \<Longrightarrow> count_list xs x = 1"
  by (induction xs) auto

lemma count_list_notin: "x \<notin> set xs \<Longrightarrow> count_list xs x = 0"
  by (induction xs) auto

lemma DrawBody_tree:
  assumes "shape (heap s) t" "periods_ok (heap s) (descendants t)" "need t \<le> n"
  shows "\<exists>s' cs. DrawBody n G (root_of t) cam s = Some (Inr s')
      \<and> heap s' = drawn G cam (rotationSpeed s) (preorder t) (descendants t) (heap s)
      \<and> calls s' = calls s @ cs \<and> entered cs = preorder t \<and> entered_label cs = []"
proof -
  from DrawBody_tree_aux(1)[of t G cam] assms obtain cs where
    "DrawBody n G (root_of t) cam s = Some (Inr (s\<lparr>heap :=
        drawn G cam (rotationSpeed s) (preorder t) (descendants t) (heap s), calls := calls s @ cs\<rparr>))"
    "entered cs = preorder t" "entered_label cs = []"
    by blast
  then show ?thesis by simp
qed

lemma DrawBodyLabel_tree:
  assumes "shape (heap s) t" "need t \<le> n"
  shows "\<exists>s' cs. DrawBodyLabel n M (root_of t) s = Some (Inr s')
      \<and> heap s' = heap s \<and> calls s' = calls s @ cs \<and> entered_label cs = preorder t \<and> entered cs = []"
proof -
  from DrawBodyLabel_tree_aux(1)[of t M] assms obtain cs where
    "DrawBodyLabel n M (root_of t) s = Some (Inr (s\<lparr>calls := calls s @ cs\<rparr>))"
    "entered_label cs = preorder t" "entered cs = []"
    by blast
  then show ?thesis by simp
qed

lemma AddBodyChildren_counts_ok:
  assumes "counts_ok (heap s)" and "parent \<in> dom (heap s)"
  shows "\<exists>s'. AddBodyChildren parent child s = Inr s' \<and> counts_ok (heap s')
      \<and> dom (heap s') = dom (heap s)"
proof -
  from assms(2) obtain p where p: "heap s parent = Some p" by auto
  with assms(1) have b: "0 \<le> childrenCount p" "childrenCount p \<le> MAX_BODY_CHILDREN"
    "int (length (children p)) = MAX_BODY_CHILDREN"
    by (auto simp: counts_ok_def)
  show ?thesis
  proof (cases "MAX_BODY_CHILDREN \<le> childrenCount p")
    case True
    with p assms(1) show ?thesis
      by (simp add: AddBodyChildren_def TraceLog_def emit_def)
  next
    case False
    let ?s' = "s\<lparr>heap := (heap s)(parent \<mapsto>
                 p\<lparr>children := (children p)[nat (childrenCount p) := Some child],
                   childrenCount := childrenCount p + 1\<rparr>)\<rparr>"
    from False p b have "AddBodyChildren parent child s = Inr ?s'"
      by (simp add: AddBodyChildren_def)
    moreover from False b assms(1) have "counts_ok (heap ?s')"
      by (simp add: counts_ok_def)
    moreover from p have "dom (heap ?s') = dom (heap s)"
      by auto
    ultimately show ?thesis by blast
  qed
qed

lemma attach_all_counts_ok:
  "counts_ok (heap s) \<Longrightarrow> fst ` set ops \<subseteq> dom (heap s) \<Longrightarrow>
   \<exists>s'. attach_all ops s = Inr s' \<and> counts_ok (heap s') \<and> dom (heap s') = dom (heap s)"
proof (induction ops arbitrary: s)
  case Nil
  then show ?case by simp
next
  case (Cons op ops)
  obtain parent child where op: "op = (parent, child)" by (cases op)
  with Cons.prems have "parent \<in> dom (heap s)" by auto
  from AddBodyChildren_counts_ok[OF Cons.prems(1) this, of child] obtain s1 where
    a: "AddBodyChildren parent child s = Inr s1" and c: "counts_ok (heap s1)"
    and d: "dom (heap s1) = dom (heap s)"
    by blast
  from Cons.prems d have "fst ` set ops \<subseteq> dom (heap s1)" by auto
  from Cons.IH[OF c this] a d op show ?case by auto
qed

section \<open>Rounding to binary32\<close>

lemma ulp_exponent_eq:
  "emin \<le> e \<Longrightarrow> nat (e - emin) \<le> steps \<Longrightarrow> \<bar>x\<bar> < 2 powi (e + p)
   \<Longrightarrow> e = emin \<or> 2 powi (e + p - 1) \<le> \<bar>x\<bar> \<Longrightarrow> ulp_exponent steps emin p x = e"
proof (induction steps arbitrary: emin)
  case 0
  then show ?case by simp
next
  case (Suc steps)
  show ?case
  proof (cases "\<bar>x\<bar> < 2 powi (emin + p)")
    case True
    have "e = emin"
    proof (rule ccontr)
      assume ne: "e \<noteq> emin"
      with Suc.prems have "2 powi (e + p - 1) \<le> \<bar>x\<bar>" and "emin + p \<le> e + p - 1" by auto
      moreover have "(2::rat) powi (emin + p) \<le> 2 powi (e + p - 1)"
        using \<open>emin + p \<le> e + p - 1\<close> by (intro power_int_increasing) auto
      ultimately show False using True by linarith
    qed
    with True show ?thesis by simp
  next
    case False
    with Suc.prems have ne: "e \<noteq> emin" by auto
    with Suc.prems have "emin + 1 \<le> e" "nat (e - (emin + 1)) \<le> steps" by auto
    from Suc.IH[OF this Suc.prems(3)] ne Suc.prems(4) False show ?thesis by simp
  qed
qed

lemma ulp_exponent_low:
  "ulp_exponent steps emin p x = emin \<or> 2 powi (ulp_exponent steps emin p x + p - 1) \<le> \<bar>x\<bar>"
proof (induction steps arbitrary: emin)
  case 0
  show ?case by simp
next
  case (Suc steps)
  show ?case
  proof (cases "\<bar>x\<bar> < 2 powi (emin + p)")
    case True
    then show ?thesis by simp
  next
    case False
    from Suc.IH[of "emin + 1"] show ?thesis
    proof
      assume "ulp_exponent steps (emin + 1) p x = emin + 1"
      with False show ?thesis by simp
    next
      assume "2 powi (ulp_exponent steps (emin + 1) p x + p - 1) \<le> \<bar>x\<bar>"
      with False show ?thesis by simp
    qed
  qed
qed

lemma round_even_eq:
  assumes "of_int n - 1/2 < q" "q < of_int n + 1/2"
  shows "round_even q = n"
proof (cases "of_int n \<le> q")
  case True
  with assms have "\<lfloor>q\<rfloor> = n" by (simp add: floor_eq_iff)
  with assms show ?thesis by (simp add: round_even_def Let_def)
next
  case False
  with assms have "\<lfloor>q\<rfloor> = n - 1" by (simp add: floor_eq_iff)
  with assms False show ?thesis by (auto simp: round_even_def Let_def)
qed

lemma round_even_tie:
  assumes "q = of_int n + 1/2" "even n"
  shows "round_even q = n"
proof -
  from assms have "\<lfloor>q\<rfloor> = n" by (simp add: floor_eq_iff)
  with assms show ?thesis by (simp add: round_even_def Let_def)
qed

lemma round_even_error: "\<bar>of_int (round_even q) - q\<bar> \<le> 1/2"
proof -
  have "of_int \<lfloor>q\<rfloor> \<le> q" "q < of_int \<lfloor>q\<rfloor> + 1" by linarith+
  then show ?thesis by (auto simp: round_even_def Let_def)
qed

lemma round_float_eq:
  assumes "emin \<le> e" "nat (e - emin) \<le> steps" "\<bar>x\<bar> < 2 powi (e + p)"
    "e = emin \<or> 2 powi (e + p - 1) \<le> \<bar>x\<bar>"
  shows "round_float steps emin p x = of_int (round_even (x / 2 powi e)) * 2 powi e"
  using ulp_exponent_eq[OF assms] by (simp add: round_float_def)

lemma round_float_error:
  "\<bar>round_float steps emin p x - x\<bar> \<le> 2 powi (ulp_exponent steps emin p x) / 2"
proof -
  define u :: rat where "u = 2 powi (ulp_exponent steps emin p x)"
  have u: "0 < u" by (simp add: u_def)
  have "round_float steps emin p x - x = (of_int (round_even (x / u)) - x / u) * u"
    using u by (simp add: round_float_def u_def[symmetric] Let_def algebra_simps)
  then have "\<bar>round_float steps emin p x - x\<bar> = \<bar>of_int (round_even (x / u)) - x / u\<bar> * u"
    using u by (simp add: abs_mult)
  also have "\<dots> \<le> 1/2 * u"
    using round_even_error[of "x / u"] u by (intro mult_right_mono) auto
  finally show ?thesis by (simp add: u_def)
qed

lemma fl32_error:
  assumes "2 powi (-126) \<le> \<bar>x\<bar>"
  shows "\<bar>fl32 x - x\<bar> \<le> \<bar>x\<bar> / 2 ^ 24"
proof -
  define e where "e = ulp_exponent 253 (-149) 24 x"
  have "e = -149 \<or> (2::rat) powi (e + 24 - 1) \<le> \<bar>x\<bar>"
    unfolding e_def by (rule ulp_exponent_low)
  then have low: "(2::rat) powi (e + 23) \<le> \<bar>x\<bar>"
  proof
    assume "e = -149"
    with assms show ?thesis by simp
  next
    assume "(2::rat) powi (e + 24 - 1) \<le> \<bar>x\<bar>"
    moreover have "e + 24 - 1 = e + 23" by simp
    ultimately show ?thesis by simp
  qed
  have "(2::rat) powi (e + 23) = 2 powi e * 2 ^ 23"
    by (simp add: power_int_add)
  with low have "(2::rat) powi e / 2 \<le> \<bar>x\<bar> / 2 ^ 24" by simp
  with round_float_error[of 253 "-149" 24 x] show ?thesis
    by (simp add: fl32_def e_def)
qed

text \<open>The two constants of the moon, and their products with 10.\<close>

lemma literal_2_100: "literal (2/100) = 10737418 / 2 ^ 29"
proof -
  have "fl64 (2/100) = of_int (round_even ((2/100) / 2 powi (-58))) * 2 powi (-58)"
    unfolding fl64_def by (rule round_float_eq) simp_all
  moreover have "round_even ((2/100) / 2 powi (-58)) = 5764607523034235"
    by (rule round_even_eq) simp_all
  ultimately have d: "fl64 (2/100) = 5764607523034235 / 2 ^ 58" by simp
  have "fl32 (5764607523034235 / 2 ^ 58)
      = of_int (round_even ((5764607523034235 / 2 ^ 58) / 2 powi (-29))) * 2 powi (-29)"
    unfolding fl32_def by (rule round_float_eq) simp_all
  moreover have "round_even ((5764607523034235 / 2 ^ 58) / 2 powi (-29)) = 10737418"
    by (rule round_even_eq) simp_all
  ultimately have "fl32 (5764607523034235 / 2 ^ 58) = 10737418 / 2 ^ 29" by simp
  then show ?thesis unfolding literal_def d .
qed

lemma literal_200_1000: "literal (200/1000) = 13421773 / 2 ^ 26"
proof -
  have "fl64 (200/1000) = of_int (round_even ((200/1000) / 2 powi (-55))) * 2 powi (-55)"
    unfolding fl64_def by (rule round_float_eq) simp_all
  moreover have "round_even ((200/1000) / 2 powi (-55)) = 7205759403792794"
    by (rule round_even_eq) simp_all
  ultimately have d: "fl64 (200/1000) = 7205759403792794 / 2 ^ 55" by simp
  have "fl32 (7205759403792794 / 2 ^ 55)
      = of_int (round_even ((7205759403792794 / 2 ^ 55) / 2 powi (-26))) * 2 powi (-26)"
    unfolding fl32_def by (rule round_float_eq) simp_all
  moreover have "round_even ((7205759403792794 / 2 ^ 55) / 2 powi (-26)) = 13421773"
    by (rule round_even_eq) simp_all
  ultimately have "fl32 (7205759403792794 / 2 ^ 55) = 13421773 / 2 ^ 26" by simp
  then show ?thesis unfolding literal_def d .
qed

lemma moon_radius: "fl32 (literal (2/100) * 10) = 3355443 / 16777216"
proof -
  have "fl32 (10737418 / 2 ^ 29 * 10)
      = of_int (round_even ((10737418 / 2 ^ 29 * 10) / 2 powi (-26))) * 2 powi (-26)"
    unfolding fl32_def by (rule round_float_eq) simp_all
  moreover have "round_even ((10737418 / 2 ^ 29 * 10) / 2 powi (-26)) = 13421772"
    by (rule round_even_tie) simp_all
  ultimately have "fl32 (10737418 / 2 ^ 29 * 10) = 3355443 / 16777216" by simp
  then show ?thesis unfolding literal_2_100 .
qed

lemma moon_orbitRadius: "fl32 (literal (200/1000) * 10) = 2"
proof -
  have "fl32 (13421773 / 2 ^ 26 * 10)
      = of_int (round_even ((13421773 / 2 ^ 26 * 10) / 2 powi (-22))) * 2 powi (-22)"
    unfolding fl32_def by (rule round_float_eq) simp_all
  moreover have "round_even ((13421773 / 2 ^ 26 * 10) / 2 powi (-22)) = 8388608"
    by (rule round_even_eq) simp_all
  ultimately have "fl32 (13421773 / 2 ^ 26 * 10) = 2" by simp
  then show ?thesis unfolding literal_200_1000 .
qed

section \<open>Claims\<close>

text \<open>C10, amended. Every call of \<^verbatim>\<open>CreateBody\<close> stores the orbit period and the label
  unchanged and leaves the child count, the orbital angle and the self-rotation angle at 0.
  The render radius and the orbit radius it stores are the binary32 products of the
  arguments with 10: while the exact product lies within the binary32 range, the stored
  value is that product rounded to the nearest float, and it differs from 10 times the
  argument by at most 2 to the -24 times that value when the product is a normal float.\<close>

theorem CreateBody_stores_rounded:
  "orbitPeriod (CreateBody r orb p l tex) = p
   \<and> label (CreateBody r orb p l tex) = l
   \<and> childrenCount (CreateBody r orb p l tex) = 0
   \<and> orbitPosition (CreateBody r orb p l tex) = 0
   \<and> rotationPosition (CreateBody r orb p l tex) = 0
   \<and> (\<bar>r * 10\<bar> < 2 powi 128 - 2 powi 103 \<longrightarrow>
        radius (CreateBody r orb p l tex) = fl32 (r * 10)
        \<and> (2 powi (-126) \<le> \<bar>r * 10\<bar> \<longrightarrow>
             \<bar>radius (CreateBody r orb p l tex) - 10 * r\<bar> \<le> \<bar>10 * r\<bar> / 2 ^ 24))
   \<and> (\<bar>orb * 10\<bar> < 2 powi 128 - 2 powi 103 \<longrightarrow>
        orbitRadius (CreateBody r orb p l tex) = fl32 (orb * 10)
        \<and> (2 powi (-126) \<le> \<bar>orb * 10\<bar> \<longrightarrow>
             \<bar>orbitRadius (CreateBody r orb p l tex) - 10 * orb\<bar> \<le> \<bar>10 * orb\<bar> / 2 ^ 24))"
proof -
  have f: "radius (CreateBody r orb p l tex) = fl32 (r * 10)"
    "orbitRadius (CreateBody r orb p l tex) = fl32 (orb * 10)"
    "orbitPeriod (CreateBody r orb p l tex) = p"
    "label (CreateBody r orb p l tex) = l"
    "childrenCount (CreateBody r orb p l tex) = 0"
    "orbitPosition (CreateBody r orb p l tex) = 0"
    "rotationPosition (CreateBody r orb p l tex) = 0"
    by (simp_all add: CreateBody_def zeroBody_def Let_def)
  have c: "r * 10 = 10 * r" "orb * 10 = 10 * orb" by simp_all
  have "2 powi (-126) \<le> \<bar>r * 10\<bar> \<longrightarrow> \<bar>fl32 (r * 10) - 10 * r\<bar> \<le> \<bar>10 * r\<bar> / 2 ^ 24"
    using fl32_error[of "r * 10"] unfolding c by blast
  moreover have "2 powi (-126) \<le> \<bar>orb * 10\<bar> \<longrightarrow> \<bar>fl32 (orb * 10) - 10 * orb\<bar> \<le> \<bar>10 * orb\<bar> / 2 ^ 24"
    using fl32_error[of "orb * 10"] unfolding c by blast
  ultimately show ?thesis unfolding f by blast
qed

theorem CreateBody_stores_rounded_witness:
  "\<bar>literal (2/100) * 10\<bar> < 2 powi 128 - 2 powi 103
   \<and> 2 powi (-126) \<le> \<bar>literal (2/100) * 10\<bar>
   \<and> radius (CreateBody (literal (2/100)) (literal (200/1000)) 24 ''moon'' ''2k_moon'')
       = fl32 (literal (2/100) * 10)
   \<and> \<bar>radius (CreateBody (literal (2/100)) (literal (200/1000)) 24 ''moon'' ''2k_moon'')
        - 10 * literal (2/100)\<bar> \<le> \<bar>10 * literal (2/100)\<bar> / 2 ^ 24
   \<and> \<bar>literal (200/1000) * 10\<bar> < 2 powi 128 - 2 powi 103
   \<and> 2 powi (-126) \<le> \<bar>literal (200/1000) * 10\<bar>
   \<and> orbitRadius (CreateBody (literal (2/100)) (literal (200/1000)) 24 ''moon'' ''2k_moon'')
       = fl32 (literal (200/1000) * 10)
   \<and> \<bar>orbitRadius (CreateBody (literal (2/100)) (literal (200/1000)) 24 ''moon'' ''2k_moon'')
        - 10 * literal (200/1000)\<bar> \<le> \<bar>10 * literal (200/1000)\<bar> / 2 ^ 24"
proof -
  note t = CreateBody_stores_rounded[of "literal (2/100)" "literal (200/1000)" 24
      "''moon''" "''2k_moon''"]
  have h: "\<bar>literal (2/100) * 10\<bar> < 2 powi 128 - 2 powi 103"
    "2 powi (-126) \<le> \<bar>literal (2/100) * 10\<bar>"
    unfolding literal_2_100 by simp_all
  have g: "\<bar>literal (200/1000) * 10\<bar> < 2 powi 128 - 2 powi 103"
    "2 powi (-126) \<le> \<bar>literal (200/1000) * 10\<bar>"
    unfolding literal_200_1000 by simp_all
  from t h g show ?thesis by blast
qed

text \<open>C10 as stated fails: for the radius argument of the moon, the float nearest to 0.02,
  the stored radius is 3355443/16777216, and 10 times the argument is
  26843545/134217728.\<close>

theorem moon_radius_not_tenfold:
  "radius (CreateBody (literal (2/100)) (literal (200/1000)) 24 ''moon'' ''2k_moon'')
     = 3355443 / 16777216
   \<and> 10 * literal (2/100) = 26843545 / 134217728
   \<and> radius (CreateBody (literal (2/100)) (literal (200/1000)) 24 ''moon'' ''2k_moon'')
     \<noteq> 10 * literal (2/100)"
proof -
  have r: "radius (CreateBody (literal (2/100)) (literal (200/1000)) 24 ''moon'' ''2k_moon'')
      = fl32 (literal (2/100) * 10)"
    by (simp add: CreateBody_def zeroBody_def Let_def)
  have t: "10 * literal (2/100) = 26843545 / 134217728"
    unfolding literal_2_100 by simp
  show ?thesis unfolding r moon_radius t by simp
qed

text \<open>C2. Attaching a child to a parent that already holds \<^verbatim>\<open>MAX_BODY_CHILDREN\<close> (10)
  children returns normally with the store unchanged (so the parent's child list and count
  are unchanged) and with one more call, the error report; and from a store in which every
  count is within its array, as it is in a body that \<^verbatim>\<open>CreateBody\<close> returns, any sequence
  of attach operations on bodies of the store returns a store in which no count exceeds
  10.\<close>

theorem AddBodyChildren_full_parent:
  "(\<forall>p. heap s parent = Some p \<and> MAX_BODY_CHILDREN \<le> childrenCount p \<longrightarrow>
      (\<exists>s'. AddBodyChildren parent child s = Inr s' \<and> heap s' = heap s
         \<and> calls s' = calls s @ [Log LOG_ERROR ''ERROR: Body has too many children!'']))
   \<and> (counts_ok (heap s) \<and> fst ` set ops \<subseteq> dom (heap s) \<longrightarrow>
      (\<exists>s'. attach_all ops s = Inr s'
         \<and> (\<forall>a body. heap s' a = Some body \<longrightarrow> childrenCount body \<le> 10)))
   \<and> counts_ok [a \<mapsto> CreateBody r orb p l tex]"
proof (intro conjI allI impI)
  show "counts_ok [a \<mapsto> CreateBody r orb p l tex]"
    by (simp add: counts_ok_def CreateBody_def zeroBody_def MAX_BODY_CHILDREN_def Let_def)
next
  fix p
  assume "heap s parent = Some p \<and> MAX_BODY_CHILDREN \<le> childrenCount p"
  then show "\<exists>s'. AddBodyChildren parent child s = Inr s' \<and> heap s' = heap s
      \<and> calls s' = calls s @ [Log LOG_ERROR ''ERROR: Body has too many children!'']"
    by (simp add: AddBodyChildren_def TraceLog_def emit_def)
next
  assume "counts_ok (heap s) \<and> fst ` set ops \<subseteq> dom (heap s)"
  with attach_all_counts_ok[of s ops] obtain s' where
    "attach_all ops s = Inr s'" "counts_ok (heap s')" by blast
  then show "\<exists>s'. attach_all ops s = Inr s'
      \<and> (\<forall>a body. heap s' a = Some body \<longrightarrow> childrenCount body \<le> 10)"
    by (auto simp: counts_ok_def MAX_BODY_CHILDREN_def)
qed

lemmas setup_defs = main_state_def main_setup_def attach_def AddBodyChildren_def main_start_def
      main_bodies_def CreateBody_def zeroBody_def MAX_BODY_CHILDREN_def addr_defs Let_def replicate_10

lemma crowded_sun:
  "\<exists>p. heap crowded sun = Some p \<and> childrenCount p = 10"
  by (simp add: crowded_def setup_defs)

lemma crowded_counts_ok: "counts_ok (heap crowded)"
  by (simp add: counts_ok_def crowded_def setup_defs)

lemma crowded_dom: "sun \<in> dom (heap crowded)"
  using crowded_sun by auto

theorem AddBodyChildren_full_parent_witness:
  "(\<exists>p. heap crowded sun = Some p \<and> MAX_BODY_CHILDREN \<le> childrenCount p)
   \<and> (\<exists>s'. AddBodyChildren sun moon crowded = Inr s' \<and> heap s' = heap crowded
         \<and> calls s' = calls crowded @ [Log LOG_ERROR ''ERROR: Body has too many children!''])
   \<and> counts_ok (heap crowded) \<and> fst ` set [(sun, moon), (sun, moon)] \<subseteq> dom (heap crowded)
   \<and> (\<exists>s'. attach_all [(sun, moon), (sun, moon)] crowded = Inr s'
         \<and> (\<forall>a body. heap s' a = Some body \<longrightarrow> childrenCount body \<le> 10))"
proof -
  from crowded_sun have h1: "\<exists>p. heap crowded sun = Some p \<and> MAX_BODY_CHILDREN \<le> childrenCount p"
    by (auto simp: MAX_BODY_CHILDREN_def)
  have h2: "counts_ok (heap crowded) \<and> fst ` set [(sun, moon), (sun, moon)] \<subseteq> dom (heap crowded)"
    using crowded_counts_ok crowded_dom by simp
  from AddBodyChildren_full_parent[of crowded sun moon "[(sun, moon), (sun, moon)]" sun 1 1 1 "''x''" "''x''"] h1 h2
  show ?thesis by blast
qed

lemma AddBodyChildren_rotationPosition:
  "AddBodyChildren parent child s = Inr s' \<Longrightarrow>
   map_option rotationPosition (heap s' a) = map_option rotationPosition (heap s a)"
  by (auto simp: AddBodyChildren_def TraceLog_def emit_def split: option.splits if_splits)

lemma DrawBody_rotationPosition:
  assumes "DrawBody n G b cam s = Some (Inr s')"
  shows "map_option rotationPosition (heap s' a) = map_option rotationPosition (heap s a)"
proof -
  from DrawBody_drawn_aux(1)[of n G b cam s s'] assms obtain vis adv where
    "heap s' = drawn G cam (rotationSpeed s) vis adv (heap s)"
    by auto
  then show ?thesis by (simp add: drawn_rotationPosition)
qed

lemma DrawBodyLabel_heap:
  assumes "DrawBodyLabel n M b s = Some (Inr s')"
  shows "heap s' = heap s" "rotationSpeed s' = rotationSpeed s"
  using DrawBodyLabel_calls_only(1)[of n M b s s'] assms by auto

text \<open>C9. The self-rotation angle \<^verbatim>\<open>rotationPosition\<close> is 0 in every body that \<^verbatim>\<open>CreateBody\<close>
  returns, and no operation writes it: attaching a child, a draw traversal and a label
  traversal that return leave it as it was in every body of the store, and after any number
  of passes of \<^verbatim>\<open>main\<close> it is still 0 in every body.\<close>

theorem rotationPosition_never_written:
  "rotationPosition (CreateBody r orb p l tex) = 0
   \<and> (\<forall>s'. AddBodyChildren parent child s = Inr s' \<longrightarrow>
         map_option rotationPosition (heap s' a) = map_option rotationPosition (heap s a))
   \<and> (\<forall>s'. DrawBody n G b cam s = Some (Inr s') \<longrightarrow>
         map_option rotationPosition (heap s' a) = map_option rotationPosition (heap s a))
   \<and> (\<forall>s'. DrawBodyLabel n M b s = Some (Inr s') \<longrightarrow>
         map_option rotationPosition (heap s' a) = map_option rotationPosition (heap s a))
   \<and> (\<forall>s' body. run_main n G M inps = Some (Inr s') \<and> heap s' a = Some body \<longrightarrow>
         rotationPosition body = 0)"
proof (intro conjI allI impI)
  show "rotationPosition (CreateBody r orb p l tex) = 0"
    by (simp add: CreateBody_def zeroBody_def Let_def)
next
  fix s' assume "AddBodyChildren parent child s = Inr s'"
  then show "map_option rotationPosition (heap s' a) = map_option rotationPosition (heap s a)"
    by (rule AddBodyChildren_rotationPosition)
next
  fix s' assume "DrawBody n G b cam s = Some (Inr s')"
  then show "map_option rotationPosition (heap s' a) = map_option rotationPosition (heap s a)"
    by (rule DrawBody_rotationPosition)
next
  fix s' assume "DrawBodyLabel n M b s = Some (Inr s')"
  then show "map_option rotationPosition (heap s' a) = map_option rotationPosition (heap s a)"
    by (simp add: DrawBodyLabel_heap)
next
  fix s' body
  assume a: "run_main n G M inps = Some (Inr s') \<and> heap s' a = Some body"
  then have m: "main_loop n G M inps main_state = Some (Inr s')"
    by (simp add: run_main_def main_setup_eq)
  from main_loop_rotationPosition[OF m, of a] a
  obtain body0 where b0: "heap main_state a = Some body0"
    and eq: "rotationPosition body = rotationPosition body0"
    by (cases "heap main_state a") auto
  from main_zero_angles[OF b0] eq show "rotationPosition body = 0" by simp
qed

lemma root_main: "root_of main_tree = sun"
  by (simp add: main_tree_def)

lemma main_DrawBody:
  "8 \<le> n \<Longrightarrow> \<exists>s' cs. DrawBody n G sun cam main_state = Some (Inr s')
      \<and> heap s' = drawn G cam (rotationSpeed main_state) (preorder main_tree) (descendants main_tree) (heap main_state)
      \<and> calls s' = calls main_state @ cs \<and> entered cs = preorder main_tree \<and> entered_label cs = []"
  using DrawBody_tree[OF main_shape main_periods, of n G cam] by (simp add: need_main root_main)

lemma main_DrawBodyLabel:
  "8 \<le> n \<Longrightarrow> \<exists>s' cs. DrawBodyLabel n M sun main_state = Some (Inr s')
      \<and> heap s' = heap main_state \<and> calls s' = calls main_state @ cs
      \<and> entered_label cs = preorder main_tree \<and> entered cs = []"
  using DrawBodyLabel_tree[OF main_shape, of n M] by (simp add: need_main root_main)

lemma run_main_tree:
  "8 \<le> n \<Longrightarrow> \<exists>s'. run_main n G M inps = Some (Inr s')
      \<and> heap s' = frames_heap G main_tree inps (2/10) (heap main_state)
      \<and> rotationSpeed s' = foldl (\<lambda>S inp. key_speed inp S) (2/10) inps"
  using main_loop_tree[OF main_shape root_main main_periods, of n G M inps]
  by (simp add: need_main run_main_def main_setup_eq main_speed)

lemma main_counts_ok: "counts_ok (heap main_state)"
  by (simp add: counts_ok_def setup_defs)

lemma main_dom: "dom (heap main_state) = {sun, moon, mercury, venus, earth, mars, jupiter, saturn, uranus, neptune, pluto}"
  by (auto simp: setup_defs split: if_splits)

theorem rotationPosition_never_written_witness:
  "rotationPosition (CreateBody 1 1 1 ''moon'' ''2k_moon'') = 0
   \<and> (\<exists>s'. AddBodyChildren sun jupiter main_state = Inr s'
         \<and> map_option rotationPosition (heap s' earth) = map_option rotationPosition (heap main_state earth))
   \<and> (\<exists>s'. DrawBody 8 flat_projection sun main_camera main_state = Some (Inr s')
         \<and> map_option rotationPosition (heap s' earth) = map_option rotationPosition (heap main_state earth))
   \<and> (\<exists>s'. DrawBodyLabel 8 fixed_width sun main_state = Some (Inr s')
         \<and> map_option rotationPosition (heap s' earth) = map_option rotationPosition (heap main_state earth))
   \<and> (\<exists>s' body. run_main 8 flat_projection fixed_width [no_key, no_key] = Some (Inr s')
         \<and> heap s' earth = Some body \<and> rotationPosition body = 0)"
proof -
  note t = rotationPosition_never_written[of 1 1 1 "''moon''" "''2k_moon''" sun jupiter main_state earth
      8 flat_projection sun main_camera fixed_width "[no_key, no_key]"]
  have "sun \<in> dom (heap main_state)" by (simp add: main_dom)
  from AddBodyChildren_counts_ok[OF main_counts_ok this, of jupiter]
  obtain s1 where s1: "AddBodyChildren sun jupiter main_state = Inr s1" by blast
  from main_DrawBody[of 8 flat_projection main_camera]
  obtain s2 where s2: "DrawBody 8 flat_projection sun main_camera main_state = Some (Inr s2)" by auto
  from main_DrawBodyLabel[of 8 fixed_width]
  obtain s3 where s3: "DrawBodyLabel 8 fixed_width sun main_state = Some (Inr s3)" by auto
  from run_main_tree[of 8 flat_projection fixed_width "[no_key, no_key]"]
  obtain s4 where s4: "run_main 8 flat_projection fixed_width [no_key, no_key] = Some (Inr s4)"
    and h4: "heap s4 = frames_heap flat_projection main_tree [no_key, no_key] (2/10) (heap main_state)"
    by auto
  have "earth \<in> dom (heap main_state)" by (simp add: main_dom)
  then have "earth \<in> dom (heap s4)"
    by (auto simp: h4 drawn_def split: option.splits)
  then obtain body where b: "heap s4 earth = Some body" by auto
  from t s1 s2 s3 s4 b show ?thesis by blast
qed

text \<open>Inputs that differ in the L key only.\<close>

lemma key_speed_L: "key_speed (i\<lparr>KEY_L := v\<rparr>) S = key_speed i S"
  by (simp add: key_speed_def)

lemma frames_heap_L:
  "list_all2 (\<lambda>i j. j = i\<lparr>KEY_L := KEY_L j\<rparr>) inps inps' \<Longrightarrow>
   frames_heap G t inps' S h = frames_heap G t inps S h
   \<and> foldl (\<lambda>S inp. key_speed inp S) S inps' = foldl (\<lambda>S inp. key_speed inp S) S inps"
proof (induction inps inps' arbitrary: S h rule: list_all2_induct)
  case Nil
  show ?case by simp
next
  case (Cons i inps j inps')
  from Cons(1) have k: "key_speed j S = key_speed i S" and u: "UpdateCamera j = UpdateCamera i"
    by (metis key_speed_L, metis input.select_convs(5) input.surjective input.update_convs(2))
  show ?case using Cons.IH by (simp add: k u)
qed

text \<open>C8. A label traversal that returns leaves the store and the rotation speed as they
  were; and over a tree below the sun, two runs of the main loop whose inputs differ in the
  L key only, started with the label flag set either way, both return and end with the same
  store (so the same orbital and self-rotation angles) and the same rotation speed.\<close>

theorem labels_leave_angles_alone:
  "(\<forall>s'. DrawBodyLabel n M b s = Some (Inr s') \<longrightarrow>
       heap s' = heap s \<and> rotationSpeed s' = rotationSpeed s)
   \<and> (shape (heap s) t \<and> root_of t = sun \<and> periods_ok (heap s) (descendants t) \<and> need t \<le> n
       \<and> list_all2 (\<lambda>i j. j = i\<lparr>KEY_L := KEY_L j\<rparr>) inps inps' \<longrightarrow>
       (\<exists>s1 s2. main_loop n G M inps s = Some (Inr s1)
          \<and> main_loop n G M inps' (s\<lparr>showBodyLabels := v\<rparr>) = Some (Inr s2)
          \<and> heap s1 = heap s2 \<and> rotationSpeed s1 = rotationSpeed s2))"
proof (intro conjI allI impI)
  fix s' assume a: "DrawBodyLabel n M b s = Some (Inr s')"
  show "heap s' = heap s" "rotationSpeed s' = rotationSpeed s"
    using DrawBodyLabel_heap[OF a] by simp_all
next
  assume a: "shape (heap s) t \<and> root_of t = sun \<and> periods_ok (heap s) (descendants t) \<and> need t \<le> n
       \<and> list_all2 (\<lambda>i j. j = i\<lparr>KEY_L := KEY_L j\<rparr>) inps inps'"
  then have sh: "shape (heap s) t" and rt: "root_of t = sun"
    and per: "periods_ok (heap s) (descendants t)" and fuel: "need t \<le> n"
    and l: "list_all2 (\<lambda>i j. j = i\<lparr>KEY_L := KEY_L j\<rparr>) inps inps'"
    by simp_all
  let ?s = "s\<lparr>showBodyLabels := v\<rparr>"
  from main_loop_tree[OF sh rt per fuel, of G M inps] obtain s1 where
    s1: "main_loop n G M inps s = Some (Inr s1)"
    "heap s1 = frames_heap G t inps (rotationSpeed s) (heap s)"
    "rotationSpeed s1 = foldl (\<lambda>S inp. key_speed inp S) (rotationSpeed s) inps"
    by blast
  have "shape (heap ?s) t" "periods_ok (heap ?s) (descendants t)"
    using sh per by simp_all
  from main_loop_tree[OF this(1) rt this(2) fuel, of G M inps'] obtain s2 where
    s2: "main_loop n G M inps' ?s = Some (Inr s2)"
    "heap s2 = frames_heap G t inps' (rotationSpeed ?s) (heap ?s)"
    "rotationSpeed s2 = foldl (\<lambda>S inp. key_speed inp S) (rotationSpeed ?s) inps'"
    by blast
  from s1 s2 frames_heap_L[OF l, of G t "rotationSpeed s" "heap s"]
  show "\<exists>s1 s2. main_loop n G M inps s = Some (Inr s1)
          \<and> main_loop n G M inps' (s\<lparr>showBodyLabels := v\<rparr>) = Some (Inr s2)
          \<and> heap s1 = heap s2 \<and> rotationSpeed s1 = rotationSpeed s2"
    by simp
qed

theorem labels_leave_angles_alone_witness:
  "(\<exists>s'. DrawBodyLabel 8 fixed_width sun main_state = Some (Inr s')
       \<and> heap s' = heap main_state \<and> rotationSpeed s' = rotationSpeed main_state)
   \<and> shape (heap main_state) main_tree \<and> root_of main_tree = sun
   \<and> periods_ok (heap main_state) (descendants main_tree) \<and> need main_tree \<le> 8
   \<and> list_all2 (\<lambda>i j. j = i\<lparr>KEY_L := KEY_L j\<rparr>) [no_key, no_key] [l_key, no_key]
   \<and> (\<exists>s1 s2. main_loop 8 flat_projection fixed_width [no_key, no_key] main_state = Some (Inr s1)
          \<and> main_loop 8 flat_projection fixed_width [l_key, no_key] (main_state\<lparr>showBodyLabels := True\<rparr>)
               = Some (Inr s2)
          \<and> heap s1 = heap s2 \<and> rotationSpeed s1 = rotationSpeed s2)"
proof -
  note t = labels_leave_angles_alone[of 8 fixed_width sun main_state main_tree
      "[no_key, no_key]" "[l_key, no_key]" flat_projection True]
  from main_DrawBodyLabel[of 8 fixed_width]
  obtain s3 where s3: "DrawBodyLabel 8 fixed_width sun main_state = Some (Inr s3)" by auto
  have l: "list_all2 (\<lambda>i j. j = i\<lparr>KEY_L := KEY_L j\<rparr>) [no_key, no_key] [l_key, no_key]"
    by (simp add: l_key_def no_key_def)
  have n: "need main_tree \<le> 8" by (simp add: need_main)
  from t s3 l n main_shape root_main main_periods show ?thesis by blast
qed

text \<open>C6. Over a tree held in the store (no address twice), the draw traversal and the label
  traversal each return, having entered the nodes of the tree in preorder: every node
  exactly once and no other address. In the store that \<^verbatim>\<open>main\<close> builds each traversal
  enters 6 bodies.\<close>

theorem traversals_visit_each_node_once:
  "(shape (heap s) t \<and> distinct (preorder t) \<and> periods_ok (heap s) (descendants t) \<and> need t \<le> n \<longrightarrow>
      (\<exists>s1 cs1. DrawBody n G (root_of t) cam s = Some (Inr s1) \<and> calls s1 = calls s @ cs1
          \<and> entered cs1 = preorder t
          \<and> (\<forall>a. count_list (entered cs1) a = (if a \<in> set (preorder t) then 1 else 0)))
      \<and> (\<exists>s2 cs2. DrawBodyLabel n M (root_of t) s = Some (Inr s2) \<and> calls s2 = calls s @ cs2
          \<and> entered_label cs2 = preorder t
          \<and> (\<forall>a. count_list (entered_label cs2) a = (if a \<in> set (preorder t) then 1 else 0))))
   \<and> (\<exists>s1 cs1. DrawBody 8 G sun cam main_state = Some (Inr s1) \<and> calls s1 = calls main_state @ cs1
          \<and> length (entered cs1) = 6)
   \<and> (\<exists>s2 cs2. DrawBodyLabel 8 M sun main_state = Some (Inr s2) \<and> calls s2 = calls main_state @ cs2
          \<and> length (entered_label cs2) = 6)"
proof (intro conjI impI)
  assume a: "shape (heap s) t \<and> distinct (preorder t) \<and> periods_ok (heap s) (descendants t) \<and> need t \<le> n"
  then have sh: "shape (heap s) t" and d: "distinct (preorder t)"
    and per: "periods_ok (heap s) (descendants t)" and fuel: "need t \<le> n"
    by simp_all
  have c: "\<forall>a. count_list (preorder t) a = (if a \<in> set (preorder t) then 1 else 0)"
    using d by (simp add: count_list_distinct count_list_notin)
  from DrawBody_tree[OF sh per fuel, of G cam] c
  show "\<exists>s1 cs1. DrawBody n G (root_of t) cam s = Some (Inr s1) \<and> calls s1 = calls s @ cs1
          \<and> entered cs1 = preorder t
          \<and> (\<forall>a. count_list (entered cs1) a = (if a \<in> set (preorder t) then 1 else 0))"
    by (metis (no_types, lifting))
  from DrawBodyLabel_tree[OF sh fuel, of M] c
  show "\<exists>s2 cs2. DrawBodyLabel n M (root_of t) s = Some (Inr s2) \<and> calls s2 = calls s @ cs2
          \<and> entered_label cs2 = preorder t
          \<and> (\<forall>a. count_list (entered_label cs2) a = (if a \<in> set (preorder t) then 1 else 0))"
    by (metis (no_types, lifting))
next
  from main_DrawBody[of 8 G cam]
  show "\<exists>s1 cs1. DrawBody 8 G sun cam main_state = Some (Inr s1) \<and> calls s1 = calls main_state @ cs1
          \<and> length (entered cs1) = 6"
    by (auto simp: preorder_main)
next
  from main_DrawBodyLabel[of 8 M]
  show "\<exists>s2 cs2. DrawBodyLabel 8 M sun main_state = Some (Inr s2) \<and> calls s2 = calls main_state @ cs2
          \<and> length (entered_label cs2) = 6"
    by (auto simp: preorder_main)
qed

theorem traversals_visit_each_node_once_witness:
  "shape (heap main_state) main_tree \<and> distinct (preorder main_tree)
   \<and> periods_ok (heap main_state) (descendants main_tree) \<and> need main_tree \<le> 8
   \<and> (\<exists>s1 cs1. DrawBody 8 flat_projection sun main_camera main_state = Some (Inr s1)
          \<and> calls s1 = calls main_state @ cs1
          \<and> entered cs1 = [sun, mercury, venus, earth, moon, mars])
   \<and> (\<exists>s2 cs2. DrawBodyLabel 8 fixed_width sun main_state = Some (Inr s2)
          \<and> calls s2 = calls main_state @ cs2
          \<and> entered_label cs2 = [sun, mercury, venus, earth, moon, mars])"
proof -
  note t = traversals_visit_each_node_once[of main_state main_tree 8 flat_projection main_camera fixed_width]
  have n: "need main_tree \<le> 8" by (simp add: need_main)
  from t n main_shape main_distinct main_periods show ?thesis
    unfolding root_main preorder_main by blast
qed

lemma child_periods_ok_drawn:
  "child_periods_ok (drawn G cam S vis adv h) = child_periods_ok h"
proof -
  define f :: "addr \<Rightarrow> Body \<Rightarrow> Body" where "f a body = body\<lparr>
         orbitPosition := orbitPosition body + of_nat (count_list adv a) * (S * 360 / orbitPeriod body),
         labelPosition := (if a \<in> set vis then G (orbitRadius body, radius body, 0) cam
                           else labelPosition body)\<rparr>" for a body
  have d: "drawn G cam S vis adv h a = map_option (f a) (h a)" for a
    by (simp add: drawn_def f_def split: option.splits)
  have f: "childrenCount (f a body) = childrenCount body" "orbitPeriod (f a body) = orbitPeriod body"
    "child_at (f a body) i = child_at body i" for a body i
    by (simp_all add: f_def child_at_def)
  show ?thesis
  proof
    assume ok: "child_periods_ok (drawn G cam S vis adv h)"
    show "child_periods_ok h"
      unfolding child_periods_ok_def
    proof (intro allI impI, elim conjE)
      fix b body i c child
      assume "h b = Some body" "i < childrenCount body" "child_at body i = Inr c" "h c = Some child"
      then have "drawn G cam S vis adv h b = Some (f b body)" "i < childrenCount (f b body)"
        "child_at (f b body) i = Inr c" "drawn G cam S vis adv h c = Some (f c child)"
        by (simp_all add: d f)
      with ok have "orbitPeriod (f c child) \<noteq> 0"
        unfolding child_periods_ok_def by blast
      then show "orbitPeriod child \<noteq> 0" by (simp add: f)
    qed
  next
    assume ok: "child_periods_ok h"
    show "child_periods_ok (drawn G cam S vis adv h)"
      unfolding child_periods_ok_def
    proof (intro allI impI, elim conjE)
      fix b body' i c child'
      assume a: "drawn G cam S vis adv h b = Some body'" "i < childrenCount body'"
        "child_at body' i = Inr c" "drawn G cam S vis adv h c = Some child'"
      then obtain body child where "h b = Some body" "body' = f b body" "h c = Some child" "child' = f c child"
        by (auto simp: d)
      with a ok have "orbitPeriod child \<noteq> 0"
        unfolding child_periods_ok_def by (simp add: f)
      with \<open>child' = f c child\<close> show "orbitPeriod child' \<noteq> 0" by (simp add: f)
    qed
  qed
qed

lemma DrawBody_no_zero_divisor:
  "child_periods_ok (heap s) \<longrightarrow> DrawBody n G b cam s \<noteq> Some (Inl DivisionByZero)"
  and
  "child_periods_ok (heap s) \<longrightarrow> DrawBody_loop n G b cam i s \<noteq> Some (Inl DivisionByZero)"
proof (induction n G b cam s and n G b cam i s rule: DrawBody_DrawBody_loop.induct)
  case (1 G b cam s)
  show ?case by simp
next
  case (2 n G b cam s)
  show ?case
  proof
    assume ok: "child_periods_ok (heap s)"
    show "DrawBody (Suc n) G b cam s \<noteq> Some (Inl DivisionByZero)"
    proof (cases "heap s b")
      case None
      then show ?thesis by simp
    next
      case (Some body)
      define s1 where "s1 = (emit (DrawModel (model body) (0, 0, 0) (radius body)) (emit (Enter_DrawBody b) s))
           \<lparr>heap := (heap (emit (DrawModel (model body) (0, 0, 0) (radius body)) (emit (Enter_DrawBody b) s)))
              (b \<mapsto> body\<lparr>labelPosition := G (orbitRadius body, radius body, 0) cam\<rparr>)\<rparr>"
      have "heap s1 = drawn G cam (rotationSpeed s) [b] [] (heap s)"
        using drawn_label[where h = "heap s" and b = b and body = body and G = G and cam = cam
          and S = "rotationSpeed s"] Some
        by (simp add: s1_def emit_def)
      with ok have ok1: "child_periods_ok (heap s1)" by (simp add: child_periods_ok_drawn)
      have "DrawBody (Suc n) G b cam s = DrawBody_loop n G b cam 0 s1"
        using Some by (simp add: s1_def Let_def)
      with 2[OF Some refl refl refl s1_def] ok1 show ?thesis by simp
    qed
  qed
next
  case (3 G b cam i s)
  show ?case by simp
next
  case (4 n G b cam i s)
  show ?case
  proof
    assume ok: "child_periods_ok (heap s)"
    show "DrawBody_loop (Suc n) G b cam i s \<noteq> Some (Inl DivisionByZero)"
    proof (cases "heap s b")
      case None
      then show ?thesis by simp
    next
      case (Some body)
      note body = Some
      show ?thesis
      proof (cases "i < childrenCount body")
        case False
        with body show ?thesis by simp
      next
        case True
        show ?thesis
        proof (cases "child_at body i")
          case (Inl e)
          then have "e \<noteq> DivisionByZero"
            by (auto simp: child_at_def split: if_splits option.splits)
          with body True Inl show ?thesis by simp
        next
          case (Inr c)
          note c = Inr
          show ?thesis
          proof (cases "heap s c")
            case None
            with body True c show ?thesis by simp
          next
            case (Some child)
            note child = Some
            from ok body True c child have nz: "orbitPeriod child \<noteq> 0"
              unfolding child_periods_ok_def by blast
            let ?S = "rotationSpeed s"
            define child' where "child' = child\<lparr>orbitPosition := orbitPosition child + ?S * 360 / orbitPeriod child\<rparr>"
            define s1 where "s1 = emit (rlRotatef (- orbitPosition child') 0 1 0) (emit (rlTranslatef (orbitRadius child') 0 0)
              (emit (rlRotatef (orbitPosition child') 0 1 0) (emit rlPushMatrix (s\<lparr>heap := (heap s)(c \<mapsto> child')\<rparr>))))"
            have h1: "heap s1 = drawn G cam ?S [] [c] (heap s)"
              using drawn_advance[where h = "heap s" and c = c and child = child and G = G and cam = cam and S = ?S] child
              by (simp add: s1_def emit_def child'_def)
            with ok have ok1: "child_periods_ok (heap s1)" by (simp add: child_periods_ok_drawn)
            have step: "DrawBody_loop (Suc n) G b cam i s =
              (case DrawBody n G c cam s1 of None \<Rightarrow> None | Some (Inl e) \<Rightarrow> Some (Inl e)
               | Some (Inr s) \<Rightarrow>
                   let s = emit rlPopMatrix s
                   in (case heap s c of None \<Rightarrow> Some (Inl InvalidPointer)
                       | Some child \<Rightarrow>
                           let s = emit (DrawCircle3D (0, 0, 0) (orbitRadius child) (1, 0, 0) 90) s
                           in DrawBody_loop n G b cam (i + 1) s))"
              using body True c child nz by (simp add: Let_def child'_def s1_def)
            from 4(1)[OF body True c child nz child'_def refl refl refl refl s1_def] ok1
            have r: "DrawBody n G c cam s1 \<noteq> Some (Inl DivisionByZero)" by simp
            show ?thesis
            proof (cases "DrawBody n G c cam s1")
              case None
              then show ?thesis unfolding step by simp
            next
              case (Some res)
              show ?thesis
              proof (cases res)
                case (Inl e)
                with Some r show ?thesis unfolding step by simp
              next
                case (Inr s2)
                with Some have d: "DrawBody n G c cam s1 = Some (Inr s2)" by simp
                from DrawBody_drawn_aux(1)[of n G c cam s1 s2] d obtain vis adv where
                  "heap s2 = drawn G cam (rotationSpeed s1) vis adv (heap s1)" by auto
                with ok1 have ok2: "child_periods_ok (heap s2)" by (simp add: child_periods_ok_drawn)
                show ?thesis
                proof (cases "heap (emit rlPopMatrix s2) c")
                  case None
                  with d show ?thesis unfolding step by (simp add: Let_def)
                next
                  case (Some child2)
                  define s4 where "s4 = emit (DrawCircle3D (0, 0, 0) (orbitRadius child2) (1, 0, 0) 90) (emit rlPopMatrix s2)"
                  have "heap s4 = heap s2" by (simp add: s4_def emit_def)
                  with ok2 have ok4: "child_periods_ok (heap s4)" by simp
                  from 4(2)[OF body True c child nz child'_def refl refl refl refl s1_def d refl refl Some s4_def] ok4
                  have "DrawBody_loop n G b cam (i + 1) s4 \<noteq> Some (Inl DivisionByZero)" by simp
                  with d Some show ?thesis unfolding step by (simp add: Let_def s4_def)
                qed
              qed
            qed
          qed
        qed
      qed
    qed
  qed
qed

lemma main_child_periods_ok: "child_periods_ok (heap main_state)"
  unfolding child_periods_ok_def
proof (intro allI impI, elim conjE)
  fix b body i c child
  assume b: "heap main_state b = Some body" and i: "i < childrenCount body"
    and c: "child_at body i = Inr c" and ch: "heap main_state c = Some child"
  from c have i0: "0 \<le> i" and nth: "children body ! nat i = Some c"
    by (auto simp: child_at_def split: if_splits option.splits)
  from b have "childrenCount body \<le> 4"
    by (auto simp: setup_defs split: if_splits)
  with i0 i have "i = 0 \<or> i = 1 \<or> i = 2 \<or> i = 3" by arith
  with b nth i have "c \<in> {mercury, venus, earth, mars, moon}"
    by (auto simp: setup_defs split: if_splits)
  with ch show "orbitPeriod child \<noteq> 0"
    by (auto simp: setup_defs)
qed

text \<open>C5. If every body attached as a child has a nonzero orbit period then no draw
  traversal, on any store and with any fuel, divides by zero; and over a tree whose non-root
  bodies have nonzero orbit periods the draw traversal returns and leaves the root's
  orbital angle as it was, whatever the root's orbit period is.\<close>

theorem no_zero_divisor:
  "(child_periods_ok (heap s) \<longrightarrow> DrawBody n G b cam s \<noteq> Some (Inl DivisionByZero))
   \<and> (shape (heap s) t \<and> distinct (preorder t) \<and> periods_ok (heap s) (descendants t) \<and> need t \<le> n \<longrightarrow>
        (\<exists>s'. DrawBody n G (root_of t) cam s = Some (Inr s')
           \<and> map_option orbitPosition (heap s' (root_of t)) = map_option orbitPosition (heap s (root_of t))))"
proof (intro conjI impI)
  assume "child_periods_ok (heap s)"
  with DrawBody_no_zero_divisor(1)[of s n G b cam]
  show "DrawBody n G b cam s \<noteq> Some (Inl DivisionByZero)" by simp
next
  assume a: "shape (heap s) t \<and> distinct (preorder t) \<and> periods_ok (heap s) (descendants t) \<and> need t \<le> n"
  then have sh: "shape (heap s) t" and d: "distinct (preorder t)"
    and per: "periods_ok (heap s) (descendants t)" and fuel: "need t \<le> n"
    by simp_all
  from d have "root_of t \<notin> set (descendants t)"
    by (simp add: preorder_root[of t])
  then have c: "count_list (descendants t) (root_of t) = 0" by (rule count_list_notin)
  from DrawBody_tree[OF sh per fuel, of G cam] obtain s' where
    r: "DrawBody n G (root_of t) cam s = Some (Inr s')"
    and h: "heap s' = drawn G cam (rotationSpeed s) (preorder t) (descendants t) (heap s)"
    by blast
  have "map_option orbitPosition (heap s' (root_of t)) = map_option orbitPosition (heap s (root_of t))"
    by (simp add: h drawn_def c split: option.splits)
  with r show "\<exists>s'. DrawBody n G (root_of t) cam s = Some (Inr s')
           \<and> map_option orbitPosition (heap s' (root_of t)) = map_option orbitPosition (heap s (root_of t))"
    by blast
qed

lemma main_sun: "\<exists>body. heap main_state sun = Some body \<and> orbitPeriod body = 0 \<and> orbitPosition body = 0"
  by (simp add: setup_defs)

theorem no_zero_divisor_witness:
  "child_periods_ok (heap main_state)
   \<and> DrawBody 8 flat_projection sun main_camera main_state \<noteq> Some (Inl DivisionByZero)
   \<and> shape (heap main_state) main_tree \<and> distinct (preorder main_tree)
   \<and> periods_ok (heap main_state) (descendants main_tree) \<and> need main_tree \<le> 8
   \<and> (\<exists>body. heap main_state sun = Some body \<and> orbitPeriod body = 0)
   \<and> (\<exists>s'. DrawBody 8 flat_projection sun main_camera main_state = Some (Inr s')
         \<and> map_option orbitPosition (heap s' sun) = Some 0)"
proof -
  note t = no_zero_divisor[of main_state 8 flat_projection sun main_camera main_tree]
  have n: "need main_tree \<le> 8" by (simp add: need_main)
  from main_sun obtain body where b: "heap main_state sun = Some body" "orbitPeriod body = 0"
    "orbitPosition body = 0" by blast
  from t n main_child_periods_ok main_shape main_distinct main_periods b show ?thesis
    unfolding root_main by auto
qed

lemma frames_heap_None: "h a = None \<Longrightarrow> frames_heap G t inps S h a = None"
  by (induction inps arbitrary: S h) (simp_all add: drawn_None)

lemma foldl_key_speed_const:
  "\<forall>inp \<in> set inps. \<not> KEY_LEFT inp \<and> \<not> KEY_RIGHT inp \<Longrightarrow>
   foldl (\<lambda>S inp. key_speed inp S) S inps = S"
  by (induction inps) (simp_all add: key_speed_def)

text \<open>C7. At rotation speed 0 a draw traversal that returns leaves the orbital angle and
  the self-rotation angle of every body as they were; and over a tree below the sun, any
  number of passes of the main loop without a left or right key press, started at rotation
  speed 0, return with the speed still 0 and both angles of every body unchanged.\<close>

theorem zero_speed_changes_no_angle:
  "(\<forall>s'. rotationSpeed s = 0 \<and> DrawBody n G b cam s = Some (Inr s') \<longrightarrow>
       map_option orbitPosition (heap s' a) = map_option orbitPosition (heap s a)
       \<and> map_option rotationPosition (heap s' a) = map_option rotationPosition (heap s a))
   \<and> (shape (heap s) t \<and> root_of t = sun \<and> periods_ok (heap s) (descendants t) \<and> need t \<le> n
       \<and> rotationSpeed s = 0 \<and> (\<forall>inp \<in> set inps. \<not> KEY_LEFT inp \<and> \<not> KEY_RIGHT inp) \<longrightarrow>
       (\<exists>s'. main_loop n G M inps s = Some (Inr s') \<and> rotationSpeed s' = 0
          \<and> map_option orbitPosition (heap s' a) = map_option orbitPosition (heap s a)
          \<and> map_option rotationPosition (heap s' a) = map_option rotationPosition (heap s a)))"
proof (intro conjI allI impI)
  fix s' assume a: "rotationSpeed s = 0 \<and> DrawBody n G b cam s = Some (Inr s')"
  with DrawBody_drawn_aux(1)[of n G b cam s s'] obtain vis adv where
    h: "heap s' = drawn G cam 0 vis adv (heap s)"
    by auto
  show "map_option orbitPosition (heap s' a) = map_option orbitPosition (heap s a)"
    by (simp add: h drawn_def split: option.splits)
  show "map_option rotationPosition (heap s' a) = map_option rotationPosition (heap s a)"
    by (simp add: h drawn_rotationPosition)
next
  assume a: "shape (heap s) t \<and> root_of t = sun \<and> periods_ok (heap s) (descendants t) \<and> need t \<le> n
       \<and> rotationSpeed s = 0 \<and> (\<forall>inp \<in> set inps. \<not> KEY_LEFT inp \<and> \<not> KEY_RIGHT inp)"
  then have sh: "shape (heap s) t" and rt: "root_of t = sun"
    and per: "periods_ok (heap s) (descendants t)" and fuel: "need t \<le> n"
    and z: "rotationSpeed s = 0" and k: "\<forall>inp \<in> set inps. \<not> KEY_LEFT inp \<and> \<not> KEY_RIGHT inp"
    by simp_all
  from main_loop_tree[OF sh rt per fuel, of G M inps] obtain s' where
    m: "main_loop n G M inps s = Some (Inr s')"
    and h: "heap s' = frames_heap G t inps 0 (heap s)"
    and r: "rotationSpeed s' = foldl (\<lambda>S inp. key_speed inp S) 0 inps"
    unfolding z by blast
  have r0: "rotationSpeed s' = 0" using r foldl_key_speed_const[OF k, of 0] by simp
  have "map_option orbitPosition (heap s' a) = map_option orbitPosition (heap s a)
      \<and> map_option rotationPosition (heap s' a) = map_option rotationPosition (heap s a)"
  proof (cases "heap s a")
    case None
    then show ?thesis by (simp add: h frames_heap_None)
  next
    case (Some body)
    from frames_heap_const[where h = "heap s" and a = a and body = body and inps = inps
        and G = G and t = t and S = 0, OF k Some] obtain lp where
      "frames_heap G t inps 0 (heap s) a = Some (body\<lparr>orbitPosition := orbitPosition body
           + of_nat (length inps) * (of_nat (count_list (descendants t) a) * (0 * 360 / orbitPeriod body)),
         labelPosition := lp\<rparr>)"
      by blast
    with Some show ?thesis by (simp add: h)
  qed
  with m r0 show "\<exists>s'. main_loop n G M inps s = Some (Inr s') \<and> rotationSpeed s' = 0
          \<and> map_option orbitPosition (heap s' a) = map_option orbitPosition (heap s a)
          \<and> map_option rotationPosition (heap s' a) = map_option rotationPosition (heap s a)"
    by blast
qed

theorem zero_speed_changes_no_angle_witness:
  "(\<exists>s'. DrawBody 8 flat_projection sun main_camera (main_state\<lparr>rotationSpeed := 0\<rparr>) = Some (Inr s')
       \<and> map_option orbitPosition (heap s' earth) = Some 0
       \<and> map_option rotationPosition (heap s' earth) = Some 0)
   \<and> (\<exists>s'. main_loop 8 flat_projection fixed_width [no_key, no_key, no_key]
              (main_state\<lparr>rotationSpeed := 0\<rparr>) = Some (Inr s')
       \<and> rotationSpeed s' = 0
       \<and> map_option orbitPosition (heap s' earth) = Some 0
       \<and> map_option rotationPosition (heap s' earth) = Some 0)"
proof -
  let ?s = "main_state\<lparr>rotationSpeed := 0\<rparr>"
  note t = zero_speed_changes_no_angle[of ?s 8 flat_projection sun main_camera earth main_tree
      "[no_key, no_key, no_key]" fixed_width]
  have sh: "shape (heap ?s) main_tree" and per: "periods_ok (heap ?s) (descendants main_tree)"
    using main_shape main_periods by simp_all
  have n: "need main_tree \<le> 8" by (simp add: need_main)
  have k: "\<forall>inp \<in> set [no_key, no_key, no_key]. \<not> KEY_LEFT inp \<and> \<not> KEY_RIGHT inp"
    by (simp add: no_key_def)
  have z: "rotationSpeed ?s = 0" by simp
  from DrawBody_tree[OF sh per, of 8 flat_projection main_camera] n
  obtain s1 where d: "DrawBody 8 flat_projection sun main_camera ?s = Some (Inr s1)"
    by (auto simp: root_main)
  have "earth \<in> dom (heap main_state)" by (simp add: main_dom)
  then obtain body where b: "heap ?s earth = Some body" by auto
  with main_zero_angles[of earth body] have e: "map_option orbitPosition (heap ?s earth) = Some 0"
    "map_option rotationPosition (heap ?s earth) = Some 0"
    by simp_all
  from t sh per n k z d root_main show ?thesis
    unfolding e by blast
qed

lemma orbit_after_eq:
  "8 \<le> n \<Longrightarrow> orbit_after n inps a
     = map_option orbitPosition (frames_heap flat_projection main_tree inps (2/10) (heap main_state) a)"
  using run_main_tree[of n flat_projection fixed_width inps] by (auto simp: orbit_after_def)

lemma label_after_eq:
  "8 \<le> n \<Longrightarrow> label_after n inps a
     = map_option labelPosition (frames_heap flat_projection main_tree inps (2/10) (heap main_state) a)"
  using run_main_tree[of n flat_projection fixed_width inps] by (auto simp: label_after_def)

lemma main_heap_mercury:
  "heap main_state mercury = Some (CreateBody (literal (5/100)) (literal (396/1000)) 90 ''mercury'' ''2k_mercury'')"
  by (simp add: main_state_def main_setup_def attach_def AddBodyChildren_def main_start_def
      main_bodies_def MAX_BODY_CHILDREN_def addr_defs Let_def replicate_10 CreateBody_def zeroBody_def)

lemma count_main_mercury: "count_list (descendants main_tree) mercury = 1"
  by (simp add: descendants_def main_tree_def addr_defs)

text \<open>One pass over a tree, for a body below the root.\<close>

lemma frame_tree_orbit:
  assumes sh: "shape (heap s) t" and rt: "root_of t = sun" and d: "distinct (preorder t)"
    and per: "periods_ok (heap s) (descendants t)" and fuel: "need t \<le> n"
    and mem: "a \<in> set (descendants t)" and b: "heap s a = Some body"
  shows "\<exists>s' body'. frame n G M inp s = Some (Inr s')
      \<and> rotationSpeed s' = key_speed inp (rotationSpeed s)
      \<and> heap s' a = Some body' \<and> orbitPeriod body' = orbitPeriod body
      \<and> orbitPosition body' = orbitPosition body + rotationSpeed s' * 360 / orbitPeriod body"
proof -
  let ?S = "key_speed inp (rotationSpeed s)"
  from d have "distinct (descendants t)" by (simp add: preorder_root[of t])
  with mem have c: "count_list (descendants t) a = 1" by (simp add: count_list_distinct)
  from frame_tree[OF sh rt per fuel, of G M inp] obtain s' where
    f: "frame n G M inp s = Some (Inr s')"
    and h: "heap s' = drawn G (UpdateCamera inp) ?S (preorder t) (descendants t) (heap s)"
    and r: "rotationSpeed s' = ?S"
    by blast
  define body' where "body' = body\<lparr>
         orbitPosition := orbitPosition body + of_nat (count_list (descendants t) a) * (?S * 360 / orbitPeriod body),
         labelPosition := (if a \<in> set (preorder t) then G (orbitRadius body, radius body, 0) (UpdateCamera inp)
                           else labelPosition body)\<rparr>"
  have hb: "heap s' a = Some body'"
    unfolding h body'_def using b by (rule drawn_Some)
  have "orbitPosition body' = orbitPosition body + ?S * 360 / orbitPeriod body"
    and "orbitPeriod body' = orbitPeriod body"
    by (simp_all add: body'_def c)
  with f r hb show ?thesis by auto
qed

text \<open>C4, amended. Over a tree below the sun, one pass of the main loop leaves a non-root
  body of positive orbit period with an orbital angle that is not below the old one when
  the rotation speed after the key handling of that pass is at least 0, and not above the
  old one when that speed is at most 0. Without an arrow key the speed stays as it was, the
  left arrow alone does not raise it and the right arrow alone does not lower it. The new
  angle is determined by the old angle, that speed and the body's own orbit period: two
  passes that agree on the three leave the same angle.\<close>

theorem orbit_angle_follows_speed:
  "(shape (heap s) t \<and> root_of t = sun \<and> distinct (preorder t)
    \<and> periods_ok (heap s) (descendants t) \<and> need t \<le> n
    \<and> a \<in> set (descendants t) \<and> heap s a = Some body \<and> 0 < orbitPeriod body \<longrightarrow>
    (\<exists>s' body'. frame n G M inp s = Some (Inr s') \<and> heap s' a = Some body'
       \<and> (0 \<le> rotationSpeed s' \<longrightarrow> orbitPosition body \<le> orbitPosition body')
       \<and> (rotationSpeed s' \<le> 0 \<longrightarrow> orbitPosition body' \<le> orbitPosition body)
       \<and> (\<not> KEY_LEFT inp \<and> \<not> KEY_RIGHT inp \<longrightarrow> rotationSpeed s' = rotationSpeed s)
       \<and> (KEY_LEFT inp \<and> \<not> KEY_RIGHT inp \<longrightarrow> rotationSpeed s' \<le> rotationSpeed s)
       \<and> (KEY_RIGHT inp \<and> \<not> KEY_LEFT inp \<longrightarrow> rotationSpeed s \<le> rotationSpeed s')))
   \<and> (shape (heap s) t \<and> root_of t = sun \<and> distinct (preorder t)
    \<and> periods_ok (heap s) (descendants t) \<and> need t \<le> n
    \<and> a \<in> set (descendants t) \<and> heap s a = Some body
    \<and> shape (heap s2) t2 \<and> root_of t2 = sun \<and> distinct (preorder t2)
    \<and> periods_ok (heap s2) (descendants t2) \<and> need t2 \<le> n
    \<and> a \<in> set (descendants t2) \<and> heap s2 a = Some body2
    \<and> orbitPosition body2 = orbitPosition body \<and> orbitPeriod body2 = orbitPeriod body
    \<and> frame n G M inp s = Some (Inr s') \<and> frame n G2 M2 inp2 s2 = Some (Inr s2')
    \<and> rotationSpeed s2' = rotationSpeed s' \<longrightarrow>
    map_option orbitPosition (heap s2' a) = map_option orbitPosition (heap s' a))"
proof (intro conjI impI)
  assume a: "shape (heap s) t \<and> root_of t = sun \<and> distinct (preorder t)
    \<and> periods_ok (heap s) (descendants t) \<and> need t \<le> n
    \<and> a \<in> set (descendants t) \<and> heap s a = Some body \<and> 0 < orbitPeriod body"
  then have pos: "0 < orbitPeriod body" by simp
  from a frame_tree_orbit[of s t n a body G M inp] obtain s' body' where
    f: "frame n G M inp s = Some (Inr s')"
    and r: "rotationSpeed s' = key_speed inp (rotationSpeed s)"
    and hb: "heap s' a = Some body'"
    and o: "orbitPosition body' = orbitPosition body + rotationSpeed s' * 360 / orbitPeriod body"
    by blast
  have up: "0 \<le> rotationSpeed s' \<longrightarrow> orbitPosition body \<le> orbitPosition body'"
    using pos by (simp add: o)
  have down: "rotationSpeed s' \<le> 0 \<longrightarrow> orbitPosition body' \<le> orbitPosition body"
    using pos by (simp add: o divide_nonpos_pos mult_nonpos_nonneg)
  have k: "\<not> KEY_LEFT inp \<and> \<not> KEY_RIGHT inp \<longrightarrow> rotationSpeed s' = rotationSpeed s"
    "KEY_LEFT inp \<and> \<not> KEY_RIGHT inp \<longrightarrow> rotationSpeed s' \<le> rotationSpeed s"
    "KEY_RIGHT inp \<and> \<not> KEY_LEFT inp \<longrightarrow> rotationSpeed s \<le> rotationSpeed s'"
    by (simp_all add: r key_speed_def)
  from f hb up down k
  show "\<exists>s' body'. frame n G M inp s = Some (Inr s') \<and> heap s' a = Some body'
       \<and> (0 \<le> rotationSpeed s' \<longrightarrow> orbitPosition body \<le> orbitPosition body')
       \<and> (rotationSpeed s' \<le> 0 \<longrightarrow> orbitPosition body' \<le> orbitPosition body)
       \<and> (\<not> KEY_LEFT inp \<and> \<not> KEY_RIGHT inp \<longrightarrow> rotationSpeed s' = rotationSpeed s)
       \<and> (KEY_LEFT inp \<and> \<not> KEY_RIGHT inp \<longrightarrow> rotationSpeed s' \<le> rotationSpeed s)
       \<and> (KEY_RIGHT inp \<and> \<not> KEY_LEFT inp \<longrightarrow> rotationSpeed s \<le> rotationSpeed s')"
    by blast
next
  assume a: "shape (heap s) t \<and> root_of t = sun \<and> distinct (preorder t)
    \<and> periods_ok (heap s) (descendants t) \<and> need t \<le> n
    \<and> a \<in> set (descendants t) \<and> heap s a = Some body
    \<and> shape (heap s2) t2 \<and> root_of t2 = sun \<and> distinct (preorder t2)
    \<and> periods_ok (heap s2) (descendants t2) \<and> need t2 \<le> n
    \<and> a \<in> set (descendants t2) \<and> heap s2 a = Some body2
    \<and> orbitPosition body2 = orbitPosition body \<and> orbitPeriod body2 = orbitPeriod body
    \<and> frame n G M inp s = Some (Inr s') \<and> frame n G2 M2 inp2 s2 = Some (Inr s2')
    \<and> rotationSpeed s2' = rotationSpeed s'"
  from a frame_tree_orbit[of s t n a body G M inp] obtain body' where
    1: "heap s' a = Some body'"
    "orbitPosition body' = orbitPosition body + rotationSpeed s' * 360 / orbitPeriod body"
    by auto
  from a frame_tree_orbit[of s2 t2 n a body2 G2 M2 inp2] obtain body2' where
    2: "heap s2' a = Some body2'"
    "orbitPosition body2' = orbitPosition body2 + rotationSpeed s2' * 360 / orbitPeriod body2"
    by auto
  from a 1 2 show "map_option orbitPosition (heap s2' a) = map_option orbitPosition (heap s' a)"
    by simp
qed

theorem orbit_angle_follows_speed_witness:
  "(\<exists>s' body'. frame 8 flat_projection fixed_width left_key main_state = Some (Inr s')
       \<and> heap s' mercury = Some body' \<and> 0 \<le> rotationSpeed s' \<and> 0 \<le> orbitPosition body'
       \<and> rotationSpeed s' \<le> rotationSpeed main_state)
   \<and> (\<exists>s' s2'. frame 8 flat_projection fixed_width no_key main_state = Some (Inr s')
       \<and> frame 8 flat_projection fixed_width l_key (main_state\<lparr>calls := [DrawFPS]\<rparr>) = Some (Inr s2')
       \<and> rotationSpeed s2' = rotationSpeed s'
       \<and> map_option orbitPosition (heap s2' mercury) = map_option orbitPosition (heap s' mercury))"
proof -
  let ?body = "CreateBody (literal (5/100)) (literal (396/1000)) 90 ''mercury'' ''2k_mercury''"
  let ?s2 = "main_state\<lparr>calls := [DrawFPS]\<rparr>"
  have n: "need main_tree \<le> 8" by (simp add: need_main)
  have mem: "mercury \<in> set (descendants main_tree)"
    by (simp add: descendants_def main_tree_def)
  have b: "orbitPosition ?body = 0" "orbitPeriod ?body = 90"
    by (simp_all add: CreateBody_def zeroBody_def Let_def)
  have pos: "0 < orbitPeriod ?body" unfolding b by simp
  have kl: "KEY_LEFT left_key \<and> \<not> KEY_RIGHT left_key"
    by (simp add: left_key_def no_key_def)
  have ks: "key_speed left_key (rotationSpeed main_state) = 1/10"
    by (simp add: key_speed_def left_key_def no_key_def main_speed)
  note t1 = orbit_angle_follows_speed[of main_state main_tree 8 mercury ?body
      flat_projection fixed_width left_key]
  from t1 main_shape root_main main_distinct main_periods n mem main_heap_mercury pos
  obtain s' body' where f: "frame 8 flat_projection fixed_width left_key main_state = Some (Inr s')"
    "heap s' mercury = Some body'"
    "0 \<le> rotationSpeed s' \<longrightarrow> orbitPosition ?body \<le> orbitPosition body'"
    "KEY_LEFT left_key \<and> \<not> KEY_RIGHT left_key \<longrightarrow> rotationSpeed s' \<le> rotationSpeed main_state"
    by blast
  from frame_tree[OF main_shape root_main main_periods n, of flat_projection fixed_width left_key] f(1)
  have "rotationSpeed s' = 1/10" by (auto simp: ks)
  with f kl have first: "\<exists>s' body'. frame 8 flat_projection fixed_width left_key main_state = Some (Inr s')
       \<and> heap s' mercury = Some body' \<and> 0 \<le> rotationSpeed s' \<and> 0 \<le> orbitPosition body'
       \<and> rotationSpeed s' \<le> rotationSpeed main_state"
    unfolding b by auto
  have sh2: "shape (heap ?s2) main_tree" "periods_ok (heap ?s2) (descendants main_tree)"
    "heap ?s2 mercury = Some ?body"
    using main_shape main_periods main_heap_mercury by simp_all
  from frame_tree[OF main_shape root_main main_periods n, of flat_projection fixed_width no_key]
  obtain sa where fa: "frame 8 flat_projection fixed_width no_key main_state = Some (Inr sa)"
    and ra: "rotationSpeed sa = key_speed no_key (rotationSpeed main_state)"
    by blast
  from frame_tree[OF sh2(1) root_main sh2(2) n, of flat_projection fixed_width l_key]
  obtain sb where fb: "frame 8 flat_projection fixed_width l_key ?s2 = Some (Inr sb)"
    and rb: "rotationSpeed sb = key_speed l_key (rotationSpeed ?s2)"
    by blast
  have req: "rotationSpeed sb = rotationSpeed sa"
    by (simp add: ra rb key_speed_def l_key_def no_key_def)
  note t2 = orbit_angle_follows_speed[of main_state main_tree 8 mercury ?body
      flat_projection fixed_width no_key ?s2 main_tree ?body sa flat_projection fixed_width l_key sb]
  from t2 main_shape root_main main_distinct main_periods n mem main_heap_mercury sh2 fa fb req
  have "map_option orbitPosition (heap sb mercury) = map_option orbitPosition (heap sa mercury)"
    by blast
  with fa fb req have second: "\<exists>s' s2'. frame 8 flat_projection fixed_width no_key main_state = Some (Inr s')
       \<and> frame 8 flat_projection fixed_width l_key ?s2 = Some (Inr s2')
       \<and> rotationSpeed s2' = rotationSpeed s'
       \<and> map_option orbitPosition (heap s2' mercury) = map_option orbitPosition (heap s' mercury)"
    by blast
  from first second show ?thesis by blast
qed

text \<open>C4 as stated fails: three presses of the left arrow take the speed below 0 (in the
  exact arithmetic of the model from 2/10 to 1/10, 0 and -1/10), and mercury's stored angle
  after the third pass, 0, is less than after the second, 2/5; so are the two angles
  reduced modulo 360.\<close>

theorem orbit_angle_decreases:
  "orbit_after 8 [left_key, left_key] mercury = Some (2/5)
   \<and> orbit_after 8 [left_key, left_key, left_key] mercury = Some 0
   \<and> mod360 0 < mod360 (2/5)"
proof -
  have m: "mod360 0 = 0" "mod360 (2/5) = 2/5"
    by (simp_all add: mod360_def floor_eq_iff)
  have "orbit_after 8 [left_key, left_key] mercury = Some (2/5)"
    by (simp add: orbit_after_eq drawn_def main_heap_mercury count_main_mercury key_speed_def
        left_key_def no_key_def CreateBody_def zeroBody_def Let_def)
  moreover have "orbit_after 8 [left_key, left_key, left_key] mercury = Some 0"
    by (simp add: orbit_after_eq drawn_def main_heap_mercury count_main_mercury key_speed_def
        left_key_def no_key_def CreateBody_def zeroBody_def Let_def)
  ultimately show ?thesis by (simp add: m)
qed

text \<open>On any store, the anchor a draw traversal leaves in the body it was called on is
  the projection of that body's (orbit radius, own radius, 0).\<close>

lemma DrawBody_label_untransformed:
  assumes "DrawBody n G b cam s = Some (Inr s')"
  shows "\<exists>body'. heap s' b = Some body'
      \<and> labelPosition body' = G (orbitRadius body', radius body', 0) cam"
proof -
  from assms obtain body where body: "heap s b = Some body"
    by (cases n; cases "heap s b") auto
  from DrawBody_drawn_aux(1)[of n G b cam s s'] assms obtain vis adv where
    v: "b \<in> set vis" and h: "heap s' = drawn G cam (rotationSpeed s) vis adv (heap s)"
    by auto
  from v h body show ?thesis by (simp add: drawn_def)
qed

lemma main_heap_moon:
  "heap main_state moon = Some (CreateBody (literal (2/100)) (literal (200/1000)) 24 ''moon'' ''2k_moon'')"
  by (simp add: main_state_def main_setup_def attach_def AddBodyChildren_def main_start_def
      main_bodies_def MAX_BODY_CHILDREN_def addr_defs Let_def replicate_10 CreateBody_def zeroBody_def)

lemma main_heap_earth:
  "\<exists>body. heap main_state earth = Some body \<and> orbitPosition body = 0 \<and> orbitPeriod body = 365"
  by (simp add: main_state_def main_setup_def attach_def AddBodyChildren_def main_start_def
      main_bodies_def MAX_BODY_CHILDREN_def addr_defs Let_def replicate_10 CreateBody_def zeroBody_def)

lemma count_main_earth: "count_list (descendants main_tree) earth = 1"
  by (simp add: descendants_def main_tree_def addr_defs)

text \<open>The moon as \<^verbatim>\<open>main\<close> creates it.\<close>

lemma main_moon:
  "\<exists>body. heap main_state moon = Some body \<and> orbitRadius body = 2
     \<and> radius body = 3355443 / 16777216 \<and> orbitPosition body = 0 \<and> orbitPeriod body = 24"
proof -
  let ?b = "CreateBody (literal (2/100)) (literal (200/1000)) 24 ''moon'' ''2k_moon''"
  have "orbitRadius ?b = fl32 (literal (200/1000) * 10)" "radius ?b = fl32 (literal (2/100) * 10)"
    "orbitPosition ?b = 0" "orbitPeriod ?b = 24"
    by (simp_all add: CreateBody_def zeroBody_def Let_def)
  then have "orbitRadius ?b = 2" "radius ?b = 3355443 / 16777216"
    "orbitPosition ?b = 0" "orbitPeriod ?b = 24"
    unfolding moon_radius moon_orbitRadius by simp_all
  with main_heap_moon show ?thesis by blast
qed

text \<open>C3, what the code does. The label anchor that \<^verbatim>\<open>DrawBody\<close> stores is the projection
  of the point (orbit radius, own radius, 0) as it stands, whatever transform the body is
  drawn under. In the store that \<^verbatim>\<open>main\<close> builds, the moon's anchor after one pass and after
  two passes is the projection of (2, 3355443/16777216, 0), while the earth it circles and
  the moon itself have moved on their orbits.\<close>

theorem moon_label_anchor:
  "label_after 8 [no_key] moon = Some (flat_projection (2, 3355443 / 16777216, 0) main_camera)
   \<and> label_after 8 [no_key, no_key] moon
       = Some (flat_projection (2, 3355443 / 16777216, 0) main_camera)
   \<and> orbit_after 8 [no_key] earth = Some (72/365)
   \<and> orbit_after 8 [no_key, no_key] earth = Some (144/365)
   \<and> orbit_after 8 [no_key] moon = Some 3
   \<and> orbit_after 8 [no_key, no_key] moon = Some 6"
proof -
  have m: "moon \<in> set (preorder main_tree)" by (simp add: preorder_main)
  from main_moon obtain mb where
    mb: "heap main_state moon = Some mb" "orbitRadius mb = 2" "radius mb = 3355443 / 16777216"
    "orbitPosition mb = 0" "orbitPeriod mb = 24"
    by blast
  have "label_after 8 [no_key] moon = Some (flat_projection (2, 3355443 / 16777216, 0) main_camera)"
    by (simp add: label_after_eq drawn_def mb m no_key_def)
  moreover have "label_after 8 [no_key, no_key] moon
      = Some (flat_projection (2, 3355443 / 16777216, 0) main_camera)"
    by (simp add: label_after_eq drawn_def mb m no_key_def)
  moreover from main_heap_earth obtain body where
    e: "heap main_state earth = Some body" "orbitPosition body = 0" "orbitPeriod body = 365"
    by blast
  have "orbit_after 8 [no_key] earth = Some (72/365)"
    by (simp add: orbit_after_eq drawn_def e count_main_earth key_speed_def no_key_def)
  moreover have "orbit_after 8 [no_key, no_key] earth = Some (144/365)"
    by (simp add: orbit_after_eq drawn_def e count_main_earth key_speed_def no_key_def)
  moreover have "count_list (descendants main_tree) moon = 1"
    by (simp add: descendants_def main_tree_def addr_defs)
  then have "orbit_after 8 [no_key] moon = Some 3" "orbit_after 8 [no_key, no_key] moon = Some 6"
    by (simp_all add: orbit_after_eq drawn_def mb key_speed_def no_key_def)
  ultimately show ?thesis by simp
qed

end
